theory Spec2Isabelle
  imports Main "HOL-Library.Word" "HOL-Library.Sublist"
begin

section \<open>JavaScript strings\<close>

text \<open>
  The version manager is a TypeScript program. Its strings are sequences of UTF-16 code
  units, so a string is a list of 16-bit words. An ASCII literal of the source is written
  \<open>lit ''...''\<close>; the two emoji markers are given by their code units.
\<close>

type_synonym code_unit = "16 word"
type_synonym jsstring = "code_unit list"

definition lit :: "string \<Rightarrow> jsstring" where
  "lit s = map of_char s"

text \<open>\<open>s.startsWith(w)\<close> and \<open>s.includes(w)\<close>.\<close>

definition startsWith :: "jsstring \<Rightarrow> jsstring \<Rightarrow> bool" where
  "startsWith s w = prefix w s"

definition includes_str :: "jsstring \<Rightarrow> jsstring \<Rightarrow> bool" where
  "includes_str s w = sublist w s"

text \<open>The bug emoji (U+1F41B, a surrogate pair) and the sparkle emoji (U+2728).\<close>

definition bugEmoji :: jsstring where
  "bugEmoji = [0xD83D, 0xDC1B]"

definition sparkleEmoji :: jsstring where
  "sparkleEmoji = [0x2728]"

text \<open>Line terminators (what \<open>.\<close> of a regular expression refuses) and white space
  (what \<open>\s\<close> matches and \<open>trim\<close> removes).\<close>

definition isLineTerminator :: "code_unit \<Rightarrow> bool" where
  "isLineTerminator c = (c = 0x0A \<or> c = 0x0D \<or> c = 0x2028 \<or> c = 0x2029)"

definition isWhiteSpace :: "code_unit \<Rightarrow> bool" where
  "isWhiteSpace c =
     (c = 0x09 \<or> c = 0x0B \<or> c = 0x0C \<or> c = 0x20 \<or> c = 0xA0 \<or> c = 0x1680
      \<or> (0x2000 \<le> c \<and> c \<le> 0x200A) \<or> c = 0x202F \<or> c = 0x205F \<or> c = 0x3000
      \<or> c = 0xFEFF \<or> isLineTerminator c)"

definition trim :: "jsstring \<Rightarrow> jsstring" where
  "trim s = rev (dropWhile isWhiteSpace (rev (dropWhile isWhiteSpace s)))"

text \<open>
  \<open>toLowerCase\<close>, letter by letter. The letters whose lower case holds an ASCII letter
  are mapped as JavaScript maps them: \<open>A\<close> to \<open>Z\<close>, the Kelvin sign U+212A (to \<open>k\<close>) and
  the dotted capital I U+0130 (to \<open>i\<close> followed by the combining dot U+0307). Every
  other code unit is kept: the lower case of another capital letter holds no ASCII
  letter and neither of the two emoji, and the program looks in a lowercased text only
  for the ASCII words \<open>breaking\<close>, \<open>feature\<close> and \<open>fix\<close> and for the two emoji, so each of
  these tests has the answer it has in the source.
\<close>

definition lowerUnits :: "code_unit \<Rightarrow> jsstring" where
  "lowerUnits c =
     (if 0x41 \<le> c \<and> c \<le> 0x5A then [c + 0x20]
      else if c = 0x212A then [0x6B]
      else if c = 0x0130 then [0x69, 0x0307]
      else [c])"

definition toLowerCase :: "jsstring \<Rightarrow> jsstring" where
  "toLowerCase s = concat (map lowerUnits s)"

definition upperUnit :: "code_unit \<Rightarrow> code_unit" where
  "upperUnit c = (if 0x61 \<le> c \<and> c \<le> 0x7A then c - 0x20 else c)"

text \<open>\<open>s.split(sep)\<close> for a separator of one code unit: the empty string gives one
  empty piece.\<close>

fun split :: "jsstring \<Rightarrow> code_unit \<Rightarrow> jsstring list" where
  "split [] sep = [[]]"
| "split (c # cs) sep =
     (if c = sep then [] # split cs sep
      else (case split cs sep of
              [] \<Rightarrow> [[c]]
            | x # xs \<Rightarrow> (c # x) # xs))"

definition dot :: code_unit where
  "dot = 0x2E"

definition newline :: code_unit where
  "newline = 0x0A"

definition dash :: code_unit where
  "dash = 0x2D"

section \<open>Version identifiers\<close>

text \<open>The result of \<open>parseVersionString\<close>: \<open>{ prefix?: string; baseVersion: string }\<close>.\<close>

record ParsedVersion =
  prefix_opt :: "jsstring option"
  baseVersion :: jsstring

text \<open>The alternatives of the first group of
  \<open>/^(pre-alpha-|alpha-|beta-|rc-)?(.+)$/\<close>, in the order the expression tries them.\<close>

definition prefixTokens :: "jsstring list" where
  "prefixTokens = [lit ''pre-alpha-'', lit ''alpha-'', lit ''beta-'', lit ''rc-'']"

text \<open>\<open>(.+)$\<close>: the rest of the input, not empty and free of line terminators.\<close>

definition dotPlusToEnd :: "jsstring \<Rightarrow> bool" where
  "dotPlusToEnd s = (s \<noteq> [] \<and> list_all (\<lambda>c. \<not> isLineTerminator c) s)"

text \<open>The match of the whole expression: the optional group is tried first, each
  alternative in turn, and the matcher backtracks to the empty option when the rest
  cannot be matched after a token.\<close>

fun matchVersion :: "jsstring list \<Rightarrow> jsstring \<Rightarrow> (jsstring option \<times> jsstring) option" where
  "matchVersion [] v = (if dotPlusToEnd v then Some (None, v) else None)"
| "matchVersion (t # ts) v =
     (if startsWith v t \<and> dotPlusToEnd (drop (length t) v)
      then Some (Some t, drop (length t) v)
      else matchVersion ts v)"

text \<open>\<open>replace(/-$/, '')\<close>.\<close>

definition removeTrailingDash :: "jsstring \<Rightarrow> jsstring" where
  "removeTrailingDash s = (if s \<noteq> [] \<and> last s = dash then butlast s else s)"

definition parseVersionString :: "jsstring \<Rightarrow> ParsedVersion" where
  "parseVersionString version =
     (case matchVersion prefixTokens version of
        Some (g1, g2) \<Rightarrow>
          \<lparr>prefix_opt = map_option removeTrailingDash g1, baseVersion = g2\<rparr>
      | None \<Rightarrow> \<lparr>prefix_opt = None, baseVersion = version\<rparr>)"

text \<open>\<open>buildVersionString(prefix?, baseVersion?)\<close>: an absent or empty base gives the
  constant, an absent or empty prefix gives the base alone.\<close>

definition buildVersionString :: "jsstring option \<Rightarrow> jsstring option \<Rightarrow> jsstring" where
  "buildVersionString pre base =
     (case base of
        None \<Rightarrow> lit ''1.0.0''
      | Some b \<Rightarrow>
          if b = [] then lit ''1.0.0''
          else (case pre of
                  None \<Rightarrow> b
                | Some p \<Rightarrow> if p = [] then b else p @ lit ''-'' @ b))"

text \<open>Parsing followed by serialising, as the callers compose them.\<close>

definition reserialize :: "jsstring \<Rightarrow> jsstring" where
  "reserialize v =
     (let r = parseVersionString v
      in buildVersionString (prefix_opt r) (Some (baseVersion r)))"

text \<open>A valid version string in the words of the specification: three dot-separated
  non-negative integers, optionally after one of the prefix tokens.\<close>

definition isDigit :: "code_unit \<Rightarrow> bool" where
  "isDigit c = (0x30 \<le> c \<and> c \<le> 0x39)"

definition isDigits :: "jsstring \<Rightarrow> bool" where
  "isDigits s = (s \<noteq> [] \<and> list_all isDigit s)"

definition validBase :: "jsstring \<Rightarrow> bool" where
  "validBase b =
     (case split b dot of
        [x, y, z] \<Rightarrow> isDigits x \<and> isDigits y \<and> isDigits z
      | _ \<Rightarrow> False)"

definition validVersionString :: "jsstring \<Rightarrow> bool" where
  "validVersionString v =
     (validBase v \<or>
      list_ex (\<lambda>t. startsWith v t \<and> validBase (drop (length t) v)) prefixTokens)"

section \<open>Numbers of the version triple\<close>

text \<open>
  \<open>incrementVersion\<close> converts the pieces of the base with \<open>Number\<close>, adds one and
  prints the result inside a template string. A JavaScript number is a double: the
  integers it holds are modelled by their value, every sum is rounded to the nearest
  double (ties to the even significand), and the variables may also hold \<open>undefined\<close>
  or \<open>NaN\<close>. \<open>Unmodelled\<close> stands for the values this embedding does not compute:
  \<open>Number\<close> of a piece that is neither empty nor a run of decimal digits, and
  infinity.
\<close>

datatype jsvalue = Undefined | NaN | Num nat | Unmodelled

definition digitValue :: "code_unit \<Rightarrow> nat" where
  "digitValue c = unat c - 48"

definition digitsValue :: "jsstring \<Rightarrow> nat" where
  "digitsValue s = foldl (\<lambda>a c. 10 * a + digitValue c) 0 s"

fun bitlen :: "nat \<Rightarrow> nat" where
  "bitlen n = (if n = 0 then 0 else Suc (bitlen (n div 2)))"

declare bitlen.simps [simp del]

text \<open>Rounding of a natural number to a double: 53 significant bits, ties to even.\<close>

definition roundToDouble :: "nat \<Rightarrow> nat" where
  "roundToDouble n =
     (if n < 2 ^ 53 then n
      else (let e = bitlen n - 53; q = n div 2 ^ e; r = n mod 2 ^ e; h = 2 ^ (e - 1)
            in if h < r \<or> (r = h \<and> odd q) then (q + 1) * 2 ^ e else q * 2 ^ e))"

text \<open>\<open>Number(s)\<close>: the empty string is 0, a run of digits its rounded value.\<close>

definition Number_js :: "jsstring \<Rightarrow> jsvalue" where
  "Number_js s =
     (if s = [] then Num 0
      else if list_all isDigit s \<and> roundToDouble (digitsValue s) < 2 ^ 1024
      then Num (roundToDouble (digitsValue s))
      else Unmodelled)"

text \<open>\<open>x + 1\<close>.\<close>

fun addOne :: "jsvalue \<Rightarrow> jsvalue" where
  "addOne Undefined = NaN"
| "addOne NaN = NaN"
| "addOne (Num n) = Num (roundToDouble (n + 1))"
| "addOne Unmodelled = Unmodelled"

definition digitUnit :: "nat \<Rightarrow> code_unit" where
  "digitUnit d = of_nat (48 + d)"

fun dec :: "nat \<Rightarrow> jsstring" where
  "dec n = (if n < 10 then [digitUnit n] else dec (n div 10) @ [digitUnit (n mod 10)])"

declare dec.simps [simp del]

text \<open>The text a template string gives for a value: an integer up to \<open>2\<^sup>5\<^sup>3\<close> prints
  with all its digits; above, JavaScript prints the shortest digits that read back as
  the same double, which is not computed (\<open>None\<close>).\<close>

fun toStr :: "jsvalue \<Rightarrow> jsstring option" where
  "toStr Undefined = Some (lit ''undefined'')"
| "toStr NaN = Some (lit ''NaN'')"
| "toStr (Num n) = (if n \<le> 2 ^ 53 then Some (dec n) else None)"
| "toStr Unmodelled = None"

text \<open>A template string: the concatenation of its parts, not computed when a part is not.\<close>

fun template :: "jsstring option list \<Rightarrow> jsstring option" where
  "template [] = Some []"
| "template (None # xs) = None"
| "template (Some s # xs) = map_option ((@) s) (template xs)"

text \<open>Array destructuring \<open>const [major, minor, patch] = ...\<close>: a missing element is
  \<open>undefined\<close>.\<close>

definition elementAt :: "jsvalue list \<Rightarrow> nat \<Rightarrow> jsvalue" where
  "elementAt xs i = (if i < length xs then xs ! i else Undefined)"

section \<open>The version increment\<close>

text \<open>\<open>Version['type']\<close>.\<close>

datatype version_type = Initial | Major | Minor | Patch

text \<open>\<open>incrementVersion(currentVersion, type, targetPrefix?, overrideType?)\<close>. The result
  is \<open>None\<close> only where a number of the new base is not computed by the embedding.\<close>

definition incrementVersion ::
  "jsstring \<Rightarrow> version_type \<Rightarrow> jsstring option \<Rightarrow> version_type option \<Rightarrow> jsstring option" where
  "incrementVersion currentVersion vtype targetPrefix overrideType =
     (let r = parseVersionString currentVersion;
          parts = map Number_js (split (baseVersion r) dot);
          mj = elementAt parts 0;
          mn = elementAt parts 1;
          pt = elementAt parts 2;
          newPrefix = (case targetPrefix of Some t \<Rightarrow> Some t | None \<Rightarrow> prefix_opt r);
          actualType = (case overrideType of Some t \<Rightarrow> t | None \<Rightarrow> vtype);
          newBaseVersion =
            (case actualType of
               Major \<Rightarrow> template [toStr (addOne mj), Some (lit ''.0.0'')]
             | Minor \<Rightarrow>
                 template [toStr mj, Some (lit ''.''), toStr (addOne mn), Some (lit ''.0'')]
             | Patch \<Rightarrow>
                 template [toStr mj, Some (lit ''.''), toStr mn, Some (lit ''.''),
                           toStr (addOne pt)]
             | Initial \<Rightarrow> Some (baseVersion r))
      in map_option (\<lambda>b. buildVersionString newPrefix (Some b)) newBaseVersion)"

text \<open>The errors the version manager throws itself.\<close>

datatype error = InvalidPrefix jsstring | TypeError

definition indexOf :: "'a list \<Rightarrow> 'a \<Rightarrow> int" where
  "indexOf xs x = (if x \<in> set xs then int (length (takeWhile (\<lambda>y. y \<noteq> x) xs)) else - 1)"

definition prefixOrder :: "jsstring option list" where
  "prefixOrder = [Some (lit ''pre-alpha''), Some (lit ''alpha''), Some (lit ''beta''),
                  Some (lit ''rc''), None]"

definition validPrefixes :: "jsstring list" where
  "validPrefixes = [lit ''pre-alpha'', lit ''alpha'', lit ''beta'', lit ''rc'']"

text \<open>\<open>validatePrefixTransition(currentVersion, targetPrefix?)\<close>: the result tells whether
  the regression warning was printed, or is the error thrown.\<close>

definition validatePrefixTransition :: "jsstring \<Rightarrow> jsstring option \<Rightarrow> error + bool" where
  "validatePrefixTransition currentVersion targetPrefix =
     (let currentPrefix = prefix_opt (parseVersionString currentVersion);
          currentIndex = indexOf prefixOrder currentPrefix;
          targetIndex = indexOf prefixOrder targetPrefix;
          warned = (currentIndex \<noteq> - 1 \<and> targetIndex \<noteq> - 1 \<and> targetIndex < currentIndex)
      in case targetPrefix of
           None \<Rightarrow> Inr warned
         | Some t \<Rightarrow>
             if t \<noteq> [] \<and> t \<notin> set validPrefixes then Inl (InvalidPrefix t) else Inr warned)"

section \<open>Commits and changelog entries\<close>

datatype entry_type = Feature | Fix | Improvement | Breaking

record ChangelogEntry =
  etype :: entry_type
  etitle :: jsstring
  edescription :: jsstring

text \<open>A date string \<open>YYYY-MM-DD\<close> is held by the number of its day; \<open>NoDate\<close> is the
  empty string. \<open>new Date(d).getTime()\<close> is the millisecond of that day at 00:00 UTC.\<close>

datatype datestr = NoDate | Day int

record CommitInfo =
  hash :: jsstring
  cdate :: datestr
  ctitle :: jsstring
  cdescription :: jsstring
  technical_section :: "jsstring option"
  changelog_section :: "jsstring option"

text \<open>\<open>processSectionEntries(section, entries)\<close>.\<close>

definition sectionType :: "jsstring \<Rightarrow> entry_type" where
  "sectionType section' =
     (if includes_str section' (lit ''fix'') \<or> includes_str section' bugEmoji then Fix
      else if includes_str section' (lit ''feature'') \<or> includes_str section' sparkleEmoji
      then Feature
      else if includes_str section' (lit ''breaking'') then Breaking
      else Improvement)"

definition entryTitle :: "jsstring \<Rightarrow> jsstring" where
  "entryTitle entry =
     (case split entry dot of
        [] \<Rightarrow> entry
      | h # _ \<Rightarrow> if h = [] then entry else h)"

definition processSectionEntries :: "jsstring \<Rightarrow> jsstring list \<Rightarrow> ChangelogEntry list" where
  "processSectionEntries section' entries =
     map (\<lambda>entry. \<lparr>etype = sectionType section', etitle = entryTitle entry,
                    edescription = entry\<rparr>) entries"

text \<open>\<open>line.replace(/^##\s*/, '')\<close> and \<open>line.replace(/^-\s*/, '')\<close>.\<close>

definition removeHashes :: "jsstring \<Rightarrow> jsstring" where
  "removeHashes line =
     (if startsWith line (lit ''##'') then dropWhile isWhiteSpace (drop 2 line) else line)"

definition removeBullet :: "jsstring \<Rightarrow> jsstring" where
  "removeBullet line =
     (if startsWith line (lit ''-'') then dropWhile isWhiteSpace (drop 1 line) else line)"

text \<open>The loop of \<open>parseChangelogSection\<close> over the trimmed, non-empty lines, with its
  three variables, and the flush of the last section after it.\<close>

definition flushSection ::
  "jsstring \<Rightarrow> jsstring list \<Rightarrow> ChangelogEntry list \<Rightarrow> ChangelogEntry list" where
  "flushSection currentSection currentEntries entries =
     (if currentSection \<noteq> [] \<and> currentEntries \<noteq> []
      then entries @ processSectionEntries currentSection currentEntries
      else entries)"

fun sectionLoop ::
  "jsstring list \<Rightarrow> jsstring \<Rightarrow> jsstring list \<Rightarrow> ChangelogEntry list \<Rightarrow> ChangelogEntry list" where
  "sectionLoop [] currentSection currentEntries entries =
     flushSection currentSection currentEntries entries"
| "sectionLoop (line # rest) currentSection currentEntries entries =
     (if startsWith line (lit ''##'')
      then sectionLoop rest (toLowerCase (removeHashes line)) []
             (flushSection currentSection currentEntries entries)
      else if startsWith line (lit ''-'')
      then sectionLoop rest currentSection (currentEntries @ [removeBullet line]) entries
      else sectionLoop rest currentSection currentEntries entries)"

definition changelogLines :: "jsstring \<Rightarrow> jsstring list" where
  "changelogLines changelog = filter (\<lambda>line. line \<noteq> []) (map trim (split changelog newline))"

definition parseChangelogSection :: "jsstring \<Rightarrow> ChangelogEntry list" where
  "parseChangelogSection changelog =
     (if changelog = [] then [] else sectionLoop (changelogLines changelog) [] [] [])"

text \<open>\<open>title.replace(/^(feat|fix|refactor)\([^)]+\)\s*-\s*/, '')\<close>.\<close>

definition rparen :: code_unit where
  "rparen = 0x29"

definition removeConventionalPrefix :: "jsstring \<Rightarrow> jsstring" where
  "removeConventionalPrefix t =
     (case find (\<lambda>k. startsWith t (k @ lit ''(''))
             [lit ''feat'', lit ''fix'', lit ''refactor''] of
        None \<Rightarrow> t
      | Some k \<Rightarrow>
          (let r1 = drop (length k + 1) t;
               body = takeWhile (\<lambda>c. c \<noteq> rparen) r1;
               r2 = dropWhile (\<lambda>c. c \<noteq> rparen) r1
           in if body = [] \<or> r2 = [] then t
              else (let r3 = dropWhile isWhiteSpace (tl r2)
                    in if startsWith r3 (lit ''-'')
                       then dropWhile isWhiteSpace (tl r3) else t)))"

text \<open>The entries one commit contributes, in the loop of \<open>analyzeAndVersion\<close> and of
  \<open>initializeFromHistory\<close>: those of its changelog section when it has one, else one
  entry made from its title.\<close>

definition titleEntry :: "CommitInfo \<Rightarrow> ChangelogEntry" where
  "titleEntry commit =
     \<lparr>etype = (if startsWith (ctitle commit) (lit ''feat('') then Feature
               else if startsWith (ctitle commit) (lit ''fix('') then Fix
               else Improvement),
      etitle = removeConventionalPrefix (ctitle commit),
      edescription = ctitle commit\<rparr>"

definition commitChanges :: "CommitInfo \<Rightarrow> ChangelogEntry list" where
  "commitChanges commit =
     (case changelog_section commit of
        None \<Rightarrow> [titleEntry commit]
      | Some s \<Rightarrow> if s = [] then [titleEntry commit] else parseChangelogSection s)"

definition allChanges :: "CommitInfo list \<Rightarrow> ChangelogEntry list" where
  "allChanges commits = foldl (\<lambda>acc commit. acc @ commitChanges commit) [] commits"

definition technicalNotes :: "CommitInfo list \<Rightarrow> jsstring" where
  "technicalNotes commits =
     foldl (\<lambda>acc commit.
              case technical_section commit of
                None \<Rightarrow> acc
              | Some t \<Rightarrow> if t = [] then acc else acc @ [newline] @ t) [] commits"

text \<open>\<open>determineVersionType(commits)\<close>.\<close>

definition hasBreaking :: "CommitInfo list \<Rightarrow> bool" where
  "hasBreaking commits =
     list_ex (\<lambda>c. (case changelog_section c of
                     None \<Rightarrow> False
                   | Some s \<Rightarrow> includes_str s (lit ''breaking''))
                 \<or> includes_str (toLowerCase (ctitle c)) (lit ''breaking'')) commits"

definition hasFeature :: "CommitInfo list \<Rightarrow> bool" where
  "hasFeature commits =
     list_ex (\<lambda>c. startsWith (ctitle c) (lit ''feat('')
                 \<or> (case changelog_section c of
                       None \<Rightarrow> False
                     | Some s \<Rightarrow> includes_str s sparkleEmoji)
                 \<or> (case changelog_section c of
                       None \<Rightarrow> False
                     | Some s \<Rightarrow> includes_str (toLowerCase s) (lit ''feature''))) commits"

definition determineVersionType :: "CommitInfo list \<Rightarrow> version_type" where
  "determineVersionType commits =
     (if hasBreaking commits then Major
      else if hasFeature commits then Minor
      else Patch)"

section \<open>Cutting a version\<close>

record Version =
  version :: jsstring
  vdate :: datestr
  vtype :: version_type
  vtitle :: jsstring
  changes :: "ChangelogEntry list"
  technical_notes :: jsstring
  breaking_changes :: "jsstring list"
  commit_hash :: jsstring
  vprefix :: "jsstring option"

record ChangelogData =
  current_version :: jsstring
  versions :: "Version list"

text \<open>\<open>generateVersionTitle(changes, type, prefix?)\<close>. The accented letters of the
  Spanish titles are given by their code units.\<close>

definition capitalize :: "jsstring \<Rightarrow> jsstring" where
  "capitalize p = map upperUnit (take 1 p) @ drop 1 p"

definition generateVersionTitle ::
  "ChangelogEntry list \<Rightarrow> version_type \<Rightarrow> jsstring option \<Rightarrow> jsstring" where
  "generateVersionTitle chs vt pre =
     (let features = filter (\<lambda>c. etype c = Feature) chs;
          fixes = filter (\<lambda>c. etype c = Fix) chs;
          improvements = filter (\<lambda>c. etype c = Improvement) chs;
          prefixLabel =
            (case pre of
               None \<Rightarrow> []
             | Some p \<Rightarrow>
                 if p = [] then []
                 else lit ''Versi'' @ [0xF3] @ lit ''n '' @ capitalize p @ lit '' - '')
      in if vt = Major
         then prefixLabel @ lit ''Actualizaci'' @ [0xF3]
                @ lit ''n mayor con cambios significativos''
         else (case features of
                 f # fs \<Rightarrow>
                   if fs = [] then prefixLabel @ lit ''Nueva funcionalidad: '' @ etitle f
                   else prefixLabel @ lit ''Nuevas funcionalidades incluyendo '' @ etitle f
                          @ lit '' y '' @ dec (length fs) @ lit '' m'' @ [0xE1] @ lit ''s''
               | [] \<Rightarrow>
                   (case fixes of
                      x # xs \<Rightarrow>
                        if xs = [] then prefixLabel @ lit ''Correcci'' @ [0xF3] @ lit ''n: ''
                                          @ etitle x
                        else prefixLabel @ lit ''Correcciones y mejoras (''
                               @ dec (length fixes) @ lit '' fixes, ''
                               @ dec (length improvements) @ lit '' mejoras)''
                    | [] \<Rightarrow> prefixLabel @ lit ''Mejoras y optimizaciones'')))"

text \<open>The options of \<open>analyzeAndVersion\<close>, and what a call does: it throws, it finds no
  new commit, or it cuts a version.\<close>

record VersionOptions =
  otype :: "version_type option"
  oprefix :: "jsstring option"

datatype outcome = NoNewCommits | Versioned jsstring

text \<open>
  \<open>analyzeAndVersion(options)\<close>. The changelog read at the start, the commits since the
  last versioned one (as git returned them, oldest first) and the date of the day are
  arguments. The result pairs what the call did with the changelog on disk afterwards:
  \<open>writeFileSync\<close> is reached only at the end of the branch that cuts a version. The
  synchronisation of the other configuration files, after the write, is not part of the
  embedding. \<open>None\<close> is returned only where \<open>incrementVersion\<close> is not computed.
\<close>

definition analyzeAndVersion ::
  "VersionOptions \<Rightarrow> ChangelogData \<Rightarrow> CommitInfo list \<Rightarrow> datestr
     \<Rightarrow> ((error + outcome) \<times> ChangelogData) option" where
  "analyzeAndVersion options changelogData newCommits today =
     (if length newCommits = 0 then Some (Inr NoNewCommits, changelogData)
      else
        (let detectedVersionType = determineVersionType newCommits;
             finalVersionType =
               (case otype options of Some t \<Rightarrow> t | None \<Rightarrow> detectedVersionType);
             validated =
               (case oprefix options of
                  None \<Rightarrow> Inr False
                | Some p \<Rightarrow> validatePrefixTransition (current_version changelogData) (Some p))
         in case validated of
              Inl e \<Rightarrow> Some (Inl e, changelogData)
            | Inr _ \<Rightarrow>
                (case incrementVersion (current_version changelogData) detectedVersionType
                        (oprefix options) (Some finalVersionType) of
                   None \<Rightarrow> None
                 | Some newVersion \<Rightarrow>
                     (let chs = allChanges newCommits;
                          pre = prefix_opt (parseVersionString newVersion);
                          newVersionEntry =
                            \<lparr>version = newVersion,
                             vdate = today,
                             vtype = finalVersionType,
                             vtitle = generateVersionTitle chs finalVersionType pre,
                             changes = chs,
                             technical_notes = trim (technicalNotes newCommits),
                             breaking_changes =
                               map edescription (filter (\<lambda>c. etype c = Breaking) chs),
                             commit_hash = hash (last newCommits),
                             vprefix = pre\<rparr>
                      in Some (Inr (Versioned newVersion),
                               \<lparr>current_version = newVersion,
                                versions = newVersionEntry # versions changelogData\<rparr>)))))"

section \<open>The command line\<close>

text \<open>The script at the end of the file reads \<open>--type\<close> and \<open>--prefix\<close> from the
  arguments and calls one of the three operations.\<close>

definition argAfter :: "jsstring list \<Rightarrow> jsstring \<Rightarrow> jsstring option" where
  "argAfter args flag =
     (let i = indexOf args flag
      in if i > - 1 \<and> nat i + 1 < length args then Some (args ! (nat i + 1)) else None)"

definition versionTypeOfString :: "jsstring \<Rightarrow> version_type option" where
  "versionTypeOfString s =
     (if s = lit ''major'' then Some Major
      else if s = lit ''minor'' then Some Minor
      else if s = lit ''patch'' then Some Patch
      else None)"

datatype command =
  ExitInvalidType jsstring | ShowHelp | RunInit | RunSync | RunVersion VersionOptions

definition parseArgs :: "jsstring list \<Rightarrow> command" where
  "parseArgs args =
     (let isInit = (lit ''--init'' \<in> set args \<or> lit ''-i'' \<in> set args);
          isSync = (lit ''--sync'' \<in> set args \<or> lit ''-s'' \<in> set args);
          typeArg = (case argAfter args (lit ''--type'') of
                       None \<Rightarrow> None
                     | Some a \<Rightarrow> if a = [] then None else Some a);
          prefixArg = (if indexOf args (lit ''--prefix'') > - 1
                       then (case argAfter args (lit ''--prefix'') of
                               None \<Rightarrow> Some []
                             | Some a \<Rightarrow> Some a)
                       else None)
      in case typeArg of
           Some a \<Rightarrow>
             (case versionTypeOfString a of
                None \<Rightarrow> ExitInvalidType a
              | Some t \<Rightarrow>
                  if lit ''--help'' \<in> set args \<or> lit ''-h'' \<in> set args then ShowHelp
                  else if isInit then RunInit
                  else if isSync then RunSync
                  else RunVersion \<lparr>otype = Some t,
                         oprefix = (if prefixArg = Some [] then None else prefixArg)\<rparr>)
         | None \<Rightarrow>
             if lit ''--help'' \<in> set args \<or> lit ''-h'' \<in> set args then ShowHelp
             else if isInit then RunInit
             else if isSync then RunSync
             else RunVersion \<lparr>otype = None,
                    oprefix = (if prefixArg = Some [] then None else prefixArg)\<rparr>)"

section \<open>Grouping the history\<close>

record VersionGroup =
  commits :: "CommitInfo list"
  gdate :: datestr
  gtype :: version_type
  gtitle :: jsstring

text \<open>\<open>daysDifference(date1, date2)\<close>; \<open>None\<close> is \<open>NaN\<close>, the difference with an
  invalid date.\<close>

fun daysDifference :: "datestr \<Rightarrow> datestr \<Rightarrow> int option" where
  "daysDifference (Day d1) (Day d2) = Some \<bar>d2 - d1\<bar>"
| "daysDifference _ _ = None"

definition generateGroupTitle :: "CommitInfo list \<Rightarrow> jsstring" where
  "generateGroupTitle cs =
     (let features = filter (\<lambda>c. startsWith (ctitle c) (lit ''feat('')) cs;
          fixes = filter (\<lambda>c. startsWith (ctitle c) (lit ''fix('')) cs
      in if length features > 0 then lit ''Nuevas funcionalidades y mejoras''
         else if length fixes > 0 then lit ''Correcciones y optimizaciones''
         else lit ''Mejoras del sistema'')"

definition makeGroup :: "CommitInfo list \<Rightarrow> datestr \<Rightarrow> VersionGroup" where
  "makeGroup currentGroup currentDate =
     \<lparr>commits = currentGroup, gdate = currentDate,
      gtype = determineVersionType currentGroup,
      gtitle = generateGroupTitle currentGroup\<rparr>"

text \<open>The condition under which the loop of \<open>groupCommitsIntoVersions\<close> starts a new
  group at a commit.\<close>

definition startsNewGroup :: "datestr \<Rightarrow> CommitInfo list \<Rightarrow> CommitInfo \<Rightarrow> bool" where
  "startsNewGroup currentDate currentGroup commit =
     (currentDate = NoDate
      \<or> (case daysDifference currentDate (cdate commit) of
            None \<Rightarrow> False
          | Some d \<Rightarrow> d > 7)
      \<or> length currentGroup \<ge> 10)"

definition pushGroup ::
  "VersionGroup list \<Rightarrow> CommitInfo list \<Rightarrow> datestr \<Rightarrow> VersionGroup list" where
  "pushGroup groups currentGroup currentDate =
     (if length currentGroup > 0 then groups @ [makeGroup currentGroup currentDate]
      else groups)"

fun groupLoop ::
  "CommitInfo list \<Rightarrow> VersionGroup list \<Rightarrow> CommitInfo list \<Rightarrow> datestr
     \<Rightarrow> VersionGroup list" where
  "groupLoop [] groups currentGroup currentDate = pushGroup groups currentGroup currentDate"
| "groupLoop (commit # rest) groups currentGroup currentDate =
     (if startsNewGroup currentDate currentGroup commit
      then groupLoop rest (pushGroup groups currentGroup currentDate) [commit] (cdate commit)
      else groupLoop rest groups (currentGroup @ [commit]) currentDate)"

definition groupCommitsIntoVersions :: "CommitInfo list \<Rightarrow> VersionGroup list" where
  "groupCommitsIntoVersions cs = rev (groupLoop cs [] [] NoDate)"

text \<open>\<open>generateVersionNumber(index, total)\<close>.\<close>

definition generateVersionNumber :: "nat \<Rightarrow> nat \<Rightarrow> jsstring" where
  "generateVersionNumber index total' =
     (if total' = 1 then lit ''1.0.0''
      else if index = 0 then lit ''1.0.0''
      else if index < 3 then lit ''0.'' @ dec (9 - index) @ lit ''.0''
      else lit ''0.1.'' @ dec (max 1 (total' - index)))"

text \<open>The version record \<open>initializeFromHistory\<close> makes of the group at an index; reading
  the hash of the last commit of an empty group would throw.\<close>

definition groupVersion :: "nat \<Rightarrow> nat \<Rightarrow> VersionGroup \<Rightarrow> error + Version" where
  "groupVersion total' i grp =
     (let chs = allChanges (commits grp)
      in if commits grp = [] then Inl TypeError
         else Inr \<lparr>version = generateVersionNumber i total',
                   vdate = gdate grp,
                   vtype = gtype grp,
                   vtitle = gtitle grp,
                   changes = chs,
                   technical_notes = trim (technicalNotes (commits grp)),
                   breaking_changes =
                     map edescription (filter (\<lambda>c. etype c = Breaking) chs),
                   commit_hash = hash (last (commits grp)),
                   vprefix = None\<rparr>)"

fun groupVersions :: "nat \<Rightarrow> nat \<Rightarrow> VersionGroup list \<Rightarrow> error + Version list" where
  "groupVersions total' i [] = Inr []"
| "groupVersions total' i (g # gs) =
     (case groupVersion total' i g of
        Inl e \<Rightarrow> Inl e
      | Inr v \<Rightarrow>
          (case groupVersions total' (Suc i) gs of
             Inl e \<Rightarrow> Inl e
           | Inr vs \<Rightarrow> Inr (v # vs)))"

text \<open>\<open>initializeFromHistory()\<close> on all the commits of the history, oldest first: the
  changelog it writes, or nothing when there is no commit.\<close>

definition initializeFromHistory :: "CommitInfo list \<Rightarrow> error + ChangelogData option" where
  "initializeFromHistory allCommits =
     (if length allCommits = 0 then Inr None
      else
        (let versionGroups = groupCommitsIntoVersions allCommits
         in case groupVersions (length versionGroups) 0 versionGroups of
              Inl e \<Rightarrow> Inl e
            | Inr vs \<Rightarrow>
                Inr (Some \<lparr>current_version =
                             (case vs of [] \<Rightarrow> lit ''0.1.0'' | v # _ \<Rightarrow> version v),
                           versions = vs\<rparr>)))"

section \<open>Notions used to state the properties\<close>

text \<open>A commit mentions \<open>breaking\<close> when the word occurs, in any letter case, in its title
  or in its changelog section.\<close>

definition mentionsBreaking :: "CommitInfo \<Rightarrow> bool" where
  "mentionsBreaking c =
     ((case changelog_section c of
         None \<Rightarrow> False
       | Some s \<Rightarrow> includes_str (toLowerCase s) (lit ''breaking''))
      \<or> includes_str (toLowerCase (ctitle c)) (lit ''breaking''))"

text \<open>A commit without changelog section: its entry is made from its title.\<close>

definition noChangelog :: "CommitInfo \<Rightarrow> bool" where
  "noChangelog c = (changelog_section c = None \<or> changelog_section c = Some [])"

text \<open>A run of commits that the loop keeps in one group anchored at a date: the date is
  that of the first commit, and no later commit of the run starts a new group after the
  commits before it.\<close>

definition runOf :: "datestr \<Rightarrow> CommitInfo list \<Rightarrow> bool" where
  "runOf d grp =
     (grp \<noteq> [] \<and> d = cdate (hd grp) \<and>
      (\<forall>i. 0 < i \<and> i < length grp \<longrightarrow> \<not> startsNewGroup d (take i grp) (grp ! i)))"

text \<open>Consecutive groups: the first commit of each group started a new group after the
  whole group before it.\<close>

fun chained :: "VersionGroup list \<Rightarrow> bool" where
  "chained [] = True"
| "chained [g] = True"
| "chained (g1 # g2 # gs) =
     (startsNewGroup (gdate g1) (commits g1) (hd (commits g2)) \<and> chained (g2 # gs))"

text \<open>The invariant of the grouping loop over its three variables.\<close>

definition groupsGood :: "VersionGroup list \<Rightarrow> bool" where
  "groupsGood gs = ((\<forall>g \<in> set gs. runOf (gdate g) (commits g)) \<and> chained gs)"

definition loopInv :: "VersionGroup list \<Rightarrow> CommitInfo list \<Rightarrow> datestr \<Rightarrow> bool" where
  "loopInv groups grp d =
     (groupsGood groups \<and>
      (grp = [] \<longrightarrow> groups = [] \<and> d = NoDate) \<and>
      (grp \<noteq> [] \<longrightarrow> runOf d grp \<and>
         (groups \<noteq> [] \<longrightarrow>
            startsNewGroup (gdate (last groups)) (commits (last groups)) (hd grp))))"

text \<open>A commit of a given day with empty texts, for the examples of grouping.\<close>

definition commitOnDay :: "int \<Rightarrow> CommitInfo" where
  "commitOnDay d =
     \<lparr>hash = [], cdate = Day d, ctitle = [], cdescription = [],
      technical_section = None, changelog_section = None\<rparr>"

section \<open>Rules to evaluate the definitions on examples\<close>

lemma dec_small: "n < 10 \<Longrightarrow> dec n = [digitUnit n]"
  by (simp add: dec.simps)

lemma dec_large: "10 \<le> n \<Longrightarrow> dec n = dec (n div 10) @ [digitUnit (n mod 10)]"
  by (subst dec.simps) simp

lemma bitlen_zero: "bitlen 0 = 0"
  by (simp add: bitlen.simps)

lemma bitlen_pos: "0 < n \<Longrightarrow> bitlen n = Suc (bitlen (n div 2))"
  by (subst bitlen.simps) simp

lemmas version_eval =
  incrementVersion_def parseVersionString_def prefixTokens_def startsWith_def lit_def
  dotPlusToEnd_def isLineTerminator_def removeTrailingDash_def dash_def dot_def
  Number_js_def isDigit_def digitsValue_def digitValue_def elementAt_def roundToDouble_def
  buildVersionString_def dec_small dec_large digitUnit_def bitlen_zero bitlen_pos Let_def

lemmas string_eval =
  lit_def startsWith_def includes_str_def sublist_Cons_right toLowerCase_def lowerUnits_def
  isWhiteSpace_def isLineTerminator_def trim_def dot_def newline_def rparen_def dash_def
  bugEmoji_def sparkleEmoji_def

lemmas changes_eval =
  allChanges_def commitChanges_def titleEntry_def removeConventionalPrefix_def
  parseChangelogSection_def changelogLines_def flushSection_def processSectionEntries_def
  sectionType_def entryTitle_def removeHashes_def removeBullet_def technicalNotes_def
  hasBreaking_def hasFeature_def determineVersionType_def

lemmas group_eval =
  initializeFromHistory_def groupCommitsIntoVersions_def startsNewGroup_def pushGroup_def
  makeGroup_def generateGroupTitle_def groupVersion_def generateVersionNumber_def

section \<open>Serialisation and parsing of versions\<close>

lemma matchVersion_cases:
  assumes "matchVersion ts v = Some (g, r)"
  shows "(g = None \<and> r = v \<and> dotPlusToEnd v) \<or>
         (\<exists>t \<in> set ts. g = Some t \<and> v = t @ r \<and> dotPlusToEnd r)"
  using assms
proof (induction ts)
  case Nil
  then show ?case by (simp split: if_splits)
next
  case (Cons t ts)
  show ?case
  proof (cases "startsWith v t \<and> dotPlusToEnd (drop (length t) v)")
    case True
    then have "g = Some t" "r = drop (length t) v"
      using Cons.prems by simp_all
    moreover from True have "v = t @ drop (length t) v"
      by (auto simp: startsWith_def prefix_def)
    ultimately show ?thesis using True by auto
  next
    case False
    then have "matchVersion ts v = Some (g, r)"
      using Cons.prems by auto
    from Cons.IH [OF this] show ?thesis by auto
  qed
qed

lemma matchVersion_None:
  "matchVersion ts v = None \<Longrightarrow> \<not> dotPlusToEnd v"
  by (induction ts) (auto split: if_splits)

lemma prefixTokens_dash:
  "t \<in> set prefixTokens \<Longrightarrow> removeTrailingDash t @ lit ''-'' = t \<and> removeTrailingDash t \<noteq> []"
  by (auto simp: prefixTokens_def removeTrailingDash_def lit_def dash_def)

lemma reserialize_nonempty:
  assumes "v \<noteq> []"
  shows "reserialize v = v"
proof (cases "matchVersion prefixTokens v")
  case None
  then show ?thesis
    using assms by (simp add: reserialize_def parseVersionString_def buildVersionString_def)
next
  case (Some m)
  obtain g r where m: "m = (g, r)" by (cases m)
  from matchVersion_cases [OF Some [unfolded m]]
  show ?thesis
  proof
    assume "g = None \<and> r = v \<and> dotPlusToEnd v"
    then show ?thesis
      using Some m assms
      by (simp add: reserialize_def parseVersionString_def buildVersionString_def)
  next
    assume "\<exists>t \<in> set prefixTokens. g = Some t \<and> v = t @ r \<and> dotPlusToEnd r"
    then obtain t where t: "t \<in> set prefixTokens" "g = Some t" "v = t @ r" "dotPlusToEnd r"
      by blast
    from prefixTokens_dash [OF t(1)]
    have d: "removeTrailingDash t @ lit ''-'' = t" "removeTrailingDash t \<noteq> []"
      by simp_all
    have "r \<noteq> []" using t(4) by (simp add: dotPlusToEnd_def)
    then have "reserialize v = removeTrailingDash t @ lit ''-'' @ r"
      using Some m t(2) d(2)
      by (simp add: reserialize_def parseVersionString_def buildVersionString_def)
    also have "\<dots> = v" using d(1) t(3) by (metis append_assoc)
    finally show ?thesis .
  qed
qed

lemma validBase_nonempty: "validBase v \<Longrightarrow> v \<noteq> []"
  by (auto simp: validBase_def)

lemma validVersionString_nonempty: "validVersionString v \<Longrightarrow> v \<noteq> []"
  by (auto simp: validVersionString_def validBase_def list_ex_iff startsWith_def
      prefixTokens_def lit_def)

text \<open>
  Claim C10. Serialising a version whose base string is absent or empty returns the
  constant \<open>1.0.0\<close> whatever the prefix argument is: the prefix is discarded and nothing
  is raised.
\<close>

theorem buildVersionString_empty_base:
  "buildVersionString pre None = lit ''1.0.0'' \<and>
   buildVersionString pre (Some []) = lit ''1.0.0''"
  by (simp add: buildVersionString_def)

text \<open>
  Claim C3. For every valid version string (three dot-separated non-negative integers,
  optionally preceded by one of the tokens \<open>pre-alpha-\<close>, \<open>alpha-\<close>, \<open>beta-\<close>, \<open>rc-\<close>),
  parsing it into prefix and base and serialising the result gives the string back.
\<close>

theorem parse_serialize_identity:
  "validVersionString v \<Longrightarrow>
   buildVersionString (prefix_opt (parseVersionString v))
     (Some (baseVersion (parseVersionString v))) = v"
  using reserialize_nonempty [OF validVersionString_nonempty, of v]
  by (simp add: reserialize_def Let_def)

theorem parse_serialize_identity_witness:
  "validVersionString (lit ''beta-2.10.3'') \<and>
   parseVersionString (lit ''beta-2.10.3'') =
     \<lparr>prefix_opt = Some (lit ''beta''), baseVersion = lit ''2.10.3''\<rparr> \<and>
   buildVersionString (prefix_opt (parseVersionString (lit ''beta-2.10.3'')))
     (Some (baseVersion (parseVersionString (lit ''beta-2.10.3'')))) = lit ''beta-2.10.3''"
proof -
  have v: "validVersionString (lit ''beta-2.10.3'')"
    by (simp add: validVersionString_def validBase_def prefixTokens_def startsWith_def
        lit_def dot_def isDigits_def isDigit_def)
  have p: "parseVersionString (lit ''beta-2.10.3'') =
     \<lparr>prefix_opt = Some (lit ''beta''), baseVersion = lit ''2.10.3''\<rparr>"
    by (simp add: parseVersionString_def prefixTokens_def startsWith_def lit_def
        dotPlusToEnd_def isLineTerminator_def removeTrailingDash_def dash_def)
  show ?thesis
    using v p parse_serialize_identity [OF v] by simp
qed

section \<open>Parsing does not validate\<close>




section \<open>Incrementing the triple\<close>

lemma split_no_sep: "sep \<notin> set s \<Longrightarrow> split s sep = [s]"
  by (induction s) auto

lemma split_append_sep: "sep \<notin> set s \<Longrightarrow> split (s @ sep # r) sep = s # split r sep"
  by (induction s) auto

lemma digits_no_dot: "list_all isDigit s \<Longrightarrow> dot \<notin> set s"
  by (auto simp: list_all_iff isDigit_def dot_def)

lemma digits_no_terminator: "list_all isDigit s \<Longrightarrow> list_all (\<lambda>c. \<not> isLineTerminator c) s"
  by (auto simp: list_all_iff isDigit_def isLineTerminator_def)

lemma split_triple:
  assumes "list_all isDigit a" "list_all isDigit b" "list_all isDigit c"
  shows "split (a @ lit ''.'' @ b @ lit ''.'' @ c) dot = [a, b, c]"
proof -
  have l: "lit ''.'' = [dot]" by (simp add: lit_def dot_def)
  show ?thesis
    using assms by (simp add: l split_append_sep split_no_sep digits_no_dot)
qed

lemma parse_build:
  assumes "pre \<in> set prefixOrder" "isDigit d" "list_all (\<lambda>c. \<not> isLineTerminator c) base"
  shows "parseVersionString (buildVersionString pre (Some (d # base)))
         = \<lparr>prefix_opt = pre, baseVersion = d # base\<rparr>"
proof -
  have d: "d \<noteq> 112" "d \<noteq> 97" "d \<noteq> 98" "d \<noteq> 114" "\<not> isLineTerminator d"
    using assms(2) by (auto simp: isDigit_def isLineTerminator_def)
  from assms(1) consider "pre = None" | "pre = Some (lit ''pre-alpha'')"
    | "pre = Some (lit ''alpha'')" | "pre = Some (lit ''beta'')" | "pre = Some (lit ''rc'')"
    by (auto simp: prefixOrder_def)
  then show ?thesis
  proof cases
    case 1
    then show ?thesis using d assms(3)
      by (simp add: buildVersionString_def parseVersionString_def prefixTokens_def
          startsWith_def lit_def dotPlusToEnd_def)
  next
    case 2
    then show ?thesis using d assms(3)
      by (simp add: buildVersionString_def parseVersionString_def prefixTokens_def
          startsWith_def lit_def dotPlusToEnd_def removeTrailingDash_def dash_def
          isLineTerminator_def)
  next
    case 3
    then show ?thesis using d assms(3)
      by (simp add: buildVersionString_def parseVersionString_def prefixTokens_def
          startsWith_def lit_def dotPlusToEnd_def removeTrailingDash_def dash_def
          isLineTerminator_def)
  next
    case 4
    then show ?thesis using d assms(3)
      by (simp add: buildVersionString_def parseVersionString_def prefixTokens_def
          startsWith_def lit_def dotPlusToEnd_def removeTrailingDash_def dash_def
          isLineTerminator_def)
  next
    case 5
    then show ?thesis using d assms(3)
      by (simp add: buildVersionString_def parseVersionString_def prefixTokens_def
          startsWith_def lit_def dotPlusToEnd_def removeTrailingDash_def dash_def
          isLineTerminator_def)
  qed
qed

lemma roundToDouble_exact: "n < 2 ^ 53 \<Longrightarrow> roundToDouble n = n"
  by (simp add: roundToDouble_def)

lemma Number_js_digits:
  assumes "isDigits a" "digitsValue a < 2 ^ 53"
  shows "Number_js a = Num (digitsValue a)"
proof -
  have "digitsValue a < 2 ^ 1024"
    using assms(2) by (rule less_le_trans) simp
  then show ?thesis
    using assms by (simp add: Number_js_def isDigits_def roundToDouble_exact)
qed

lemma toStr_exact: "n < 2 ^ 53 \<Longrightarrow> toStr (Num n) = Some (dec n)"
  by simp

lemma addOne_exact: "n + 1 < 2 ^ 53 \<Longrightarrow> addOne (Num n) = Num (n + 1)"
  by (simp add: roundToDouble_exact)

lemma dec_nonempty: "dec n \<noteq> []"
  by (subst dec.simps) simp

text \<open>The decimal text of a number is a run of digits with that value, so the new
  base is again a triple.\<close>

lemma unat_digitUnit: "d < 10 \<Longrightarrow> unat (digitUnit d) = 48 + d"
  unfolding digitUnit_def by (subst unat_of_nat) simp

lemma digitUnit_isDigit: "d < 10 \<Longrightarrow> isDigit (digitUnit d)"
  by (simp add: isDigit_def word_le_nat_alt unat_digitUnit)

lemma digitValue_digitUnit: "d < 10 \<Longrightarrow> digitValue (digitUnit d) = d"
  by (simp add: digitValue_def unat_digitUnit)

lemma isDigits_dec: "isDigits (dec n)"
proof (induction n rule: dec.induct)
  case (1 n)
  show ?case
  proof (cases "n < 10")
    case True
    then show ?thesis by (simp add: dec_small isDigits_def digitUnit_isDigit)
  next
    case False
    then have "isDigits (dec (n div 10))" using "1" by simp
    moreover have "isDigit (digitUnit (n mod 10))" by (simp add: digitUnit_isDigit)
    ultimately show ?thesis using False by (simp add: dec_large isDigits_def)
  qed
qed

lemma digitsValue_snoc: "digitsValue (s @ [c]) = 10 * digitsValue s + digitValue c"
  by (simp add: digitsValue_def)

lemma digitsValue_dec: "digitsValue (dec n) = n"
proof (induction n rule: dec.induct)
  case (1 n)
  show ?case
  proof (cases "n < 10")
    case True
    then show ?thesis by (simp add: dec_small digitsValue_def digitValue_digitUnit)
  next
    case False
    then have "digitsValue (dec (n div 10)) = n div 10" using "1" by simp
    then show ?thesis
      using False by (simp add: dec_large digitsValue_snoc digitValue_digitUnit)
  qed
qed

lemma incrementVersion_parts:
  assumes a: "isDigits a" and b: "isDigits b" and c: "isDigits c"
    and pre: "pre \<in> set prefixOrder"
  shows "incrementVersion (buildVersionString pre (Some (a @ lit ''.'' @ b @ lit ''.'' @ c)))
           vt target override =
         map_option
           (\<lambda>nb. buildVersionString (case target of Some t \<Rightarrow> Some t | None \<Rightarrow> pre) (Some nb))
           (case (case override of Some t \<Rightarrow> t | None \<Rightarrow> vt) of
              Major \<Rightarrow> template [toStr (addOne (Number_js a)), Some (lit ''.0.0'')]
            | Minor \<Rightarrow> template [toStr (Number_js a), Some (lit ''.''),
                                  toStr (addOne (Number_js b)), Some (lit ''.0'')]
            | Patch \<Rightarrow> template [toStr (Number_js a), Some (lit ''.''), toStr (Number_js b),
                                  Some (lit ''.''), toStr (addOne (Number_js c))]
            | Initial \<Rightarrow> Some (a @ lit ''.'' @ b @ lit ''.'' @ c))"
proof -
  obtain d a' where da: "a = d # a'" using a by (cases a) (auto simp: isDigits_def)
  have dd: "isDigit d" using a da by (simp add: isDigits_def)
  have la: "list_all isDigit a" "list_all isDigit b" "list_all isDigit c"
    using a b c by (simp_all add: isDigits_def)
  have dotnt: "list_all (\<lambda>c. \<not> isLineTerminator c) (lit ''.'')"
    by (simp add: lit_def isLineTerminator_def)
  have nt: "list_all (\<lambda>c. \<not> isLineTerminator c) (a' @ lit ''.'' @ b @ lit ''.'' @ c)"
    using digits_no_terminator [OF la(1)] digits_no_terminator [OF la(2)]
      digits_no_terminator [OF la(3)] dotnt da by simp
  have p: "parseVersionString (buildVersionString pre (Some (a @ lit ''.'' @ b @ lit ''.'' @ c)))
           = \<lparr>prefix_opt = pre, baseVersion = a @ lit ''.'' @ b @ lit ''.'' @ c\<rparr>"
    using parse_build [OF pre dd nt] da by simp
  show ?thesis
    unfolding incrementVersion_def p Let_def
    by (simp add: split_triple [OF la] elementAt_def split: version_type.split option.split)
qed

text \<open>
  Claim C2, as the code has it. For every current version whose base is three runs of
  digits with values \<open>M\<close>, \<open>N\<close>, \<open>P\<close> below \<open>2\<^sup>5\<^sup>3 - 1\<close> (the range in which a
  JavaScript number counts exactly), with or without a recognised prefix: a major bump
  gives the base \<open>(M+1).0.0\<close>, a minor bump \<open>M.(N+1).0\<close>, a patch bump \<open>M.N.(P+1)\<close>, and
  the unrecognised bump type \<open>initial\<close> returns the version unchanged; no error is
  raised. The prefix is carried over.
\<close>

theorem incrementVersion_triple:
  assumes "isDigits a" "isDigits b" "isDigits c"
    and "digitsValue a < 2 ^ 53 - 1" "digitsValue b < 2 ^ 53 - 1" "digitsValue c < 2 ^ 53 - 1"
    and "pre \<in> set prefixOrder"
  shows
   "incrementVersion (buildVersionString pre (Some (a @ lit ''.'' @ b @ lit ''.'' @ c)))
      vt target override
    = Some (buildVersionString (case target of Some t \<Rightarrow> Some t | None \<Rightarrow> pre)
        (Some (case (case override of Some t \<Rightarrow> t | None \<Rightarrow> vt) of
                 Major \<Rightarrow> dec (digitsValue a + 1) @ lit ''.0.0''
               | Minor \<Rightarrow> dec (digitsValue a) @ lit ''.'' @ dec (digitsValue b + 1) @ lit ''.0''
               | Patch \<Rightarrow> dec (digitsValue a) @ lit ''.'' @ dec (digitsValue b) @ lit ''.''
                           @ dec (digitsValue c + 1)
               | Initial \<Rightarrow> a @ lit ''.'' @ b @ lit ''.'' @ c)))"
proof -
  have lt: "digitsValue a < 2 ^ 53" "digitsValue b < 2 ^ 53" "digitsValue c < 2 ^ 53"
    "digitsValue a + 1 < 2 ^ 53" "digitsValue b + 1 < 2 ^ 53" "digitsValue c + 1 < 2 ^ 53"
    using assms(4-6) by simp_all
  note n = Number_js_digits [OF assms(1) lt(1)] Number_js_digits [OF assms(2) lt(2)]
    Number_js_digits [OF assms(3) lt(3)]
  note s = toStr_exact [OF lt(1)] toStr_exact [OF lt(2)] toStr_exact [OF lt(4)]
    toStr_exact [OF lt(5)] toStr_exact [OF lt(6)]
  note p = addOne_exact [OF lt(4)] addOne_exact [OF lt(5)] addOne_exact [OF lt(6)]
  show ?thesis
    unfolding incrementVersion_parts [OF assms(1-3) assms(7)] n p s
    by (cases "case override of Some t \<Rightarrow> t | None \<Rightarrow> vt") simp_all
qed

text \<open>The three examples of the specification, and an unrecognised bump type.\<close>

theorem incrementVersion_triple_witness:
  "incrementVersion (lit ''1.4.9'') Minor None None = Some (lit ''1.5.0'') \<and>
   incrementVersion (lit ''0.9.3'') Major None None = Some (lit ''1.0.0'') \<and>
   incrementVersion (lit ''2.0.0'') Patch None None = Some (lit ''2.0.1'') \<and>
   incrementVersion (lit ''rc-2.0.0'') Initial None None = Some (lit ''rc-2.0.0'')"
proof -
  have d: "isDigits (lit ''0'')" "isDigits (lit ''1'')" "isDigits (lit ''2'')"
    "isDigits (lit ''3'')" "isDigits (lit ''4'')" "isDigits (lit ''9'')"
    by (simp_all add: isDigits_def isDigit_def lit_def)
  have p: "None \<in> set prefixOrder" "Some (lit ''rc'') \<in> set prefixOrder"
    by (simp_all add: prefixOrder_def)
  have b: "(0::nat) < 2 ^ 53 - 1" "(1::nat) < 2 ^ 53 - 1" "(2::nat) < 2 ^ 53 - 1"
    "(3::nat) < 2 ^ 53 - 1" "(4::nat) < 2 ^ 53 - 1" "(9::nat) < 2 ^ 53 - 1"
    by simp_all
  have 1: "incrementVersion (lit ''1.4.9'') Minor None None = Some (lit ''1.5.0'')"
    using incrementVersion_triple [OF d(2) d(5) d(6) _ _ _ p(1),
        where vt = Minor and target = None and override = None] b
    by (simp add: buildVersionString_def lit_def dec_small digitUnit_def digitsValue_def
        digitValue_def)
  have 2: "incrementVersion (lit ''0.9.3'') Major None None = Some (lit ''1.0.0'')"
    using incrementVersion_triple [OF d(1) d(6) d(4) _ _ _ p(1),
        where vt = Major and target = None and override = None] b
    by (simp add: buildVersionString_def lit_def dec_small digitUnit_def digitsValue_def
        digitValue_def)
  have 3: "incrementVersion (lit ''2.0.0'') Patch None None = Some (lit ''2.0.1'')"
    using incrementVersion_triple [OF d(3) d(1) d(1) _ _ _ p(1),
        where vt = Patch and target = None and override = None] b
    by (simp add: buildVersionString_def lit_def dec_small digitUnit_def digitsValue_def
        digitValue_def)
  have 4: "incrementVersion (lit ''rc-2.0.0'') Initial None None = Some (lit ''rc-2.0.0'')"
    using incrementVersion_triple [OF d(3) d(1) d(1) _ _ _ p(2),
        where vt = Initial and target = None and override = None] b
    by (simp add: buildVersionString_def lit_def dec_small digitUnit_def digitsValue_def
        digitValue_def)
  show ?thesis using 1 2 3 4 by simp
qed

text \<open>At \<open>2\<^sup>5\<^sup>3\<close> the sum \<open>major + 1\<close> is rounded back to \<open>2\<^sup>5\<^sup>3\<close>: a major bump of
  \<open>9007199254740992.0.0\<close> returns the same version.\<close>

theorem incrementVersion_large_counterexample:
  "isDigits (lit ''9007199254740992'') \<and> isDigits (lit ''0'') \<and>
   digitsValue (lit ''9007199254740992'') = 9007199254740992 \<and>
   incrementVersion (lit ''9007199254740992.0.0'') Major None None
     = Some (lit ''9007199254740992.0.0'') \<and>
   lit ''9007199254740992.0.0'' \<noteq> dec (9007199254740992 + 1) @ lit ''.0.0''"
  by (simp add: version_eval isDigits_def)

section \<open>Rejection of an invalid prefix\<close>

lemma analyzeAndVersion_no_commits:
  "analyzeAndVersion options changelogData [] today = Some (Inr NoNewCommits, changelogData)"
  by (simp add: analyzeAndVersion_def)

lemma analyzeAndVersion_throws:
  assumes "newCommits \<noteq> []" "oprefix options = Some p"
    and "validatePrefixTransition (current_version changelogData) (Some p) = Inl e"
  shows "analyzeAndVersion options changelogData newCommits today = Some (Inl e, changelogData)"
  using assms by (simp add: analyzeAndVersion_def Let_def)

lemma validatePrefixTransition_invalid:
  "p \<noteq> [] \<Longrightarrow> p \<notin> set validPrefixes \<Longrightarrow>
   validatePrefixTransition currentVersion (Some p) = Inl (InvalidPrefix p)"
  by (simp add: validatePrefixTransition_def Let_def)

lemma validatePrefixTransition_valid:
  "p = [] \<or> p \<in> set validPrefixes \<Longrightarrow>
   \<exists>w. validatePrefixTransition currentVersion (Some p) = Inr w"
  by (auto simp: validatePrefixTransition_def Let_def)

text \<open>A move from \<open>beta\<close> back to \<open>alpha\<close> prints the regression warning and is
  accepted; the empty prefix is accepted without a warning.\<close>

lemma beta_to_alpha_warns:
  "validatePrefixTransition (lit ''beta-1.2.0'') (Some (lit ''alpha'')) = Inr True \<and>
   validatePrefixTransition (lit ''alpha-1.2.0'') (Some []) = Inr False"
  by (simp add: validatePrefixTransition_def version_eval indexOf_def prefixOrder_def
      validPrefixes_def)

text \<open>
  Claim C5, as the code has it. When the requested prefix is not empty and is none of
  \<open>pre-alpha\<close>, \<open>alpha\<close>, \<open>beta\<close>, \<open>rc\<close>, a call of \<open>analyzeAndVersion\<close> that finds at
  least one new commit throws the invalid-prefix error, and a call that finds no new
  commit returns normally before the prefix is looked at; in both cases the changelog
  on disk is the one that was read.
\<close>

theorem invalid_prefix_rejected:
  assumes "oprefix options = Some p" "p \<noteq> []" "p \<notin> set validPrefixes"
  shows "analyzeAndVersion options changelogData newCommits today =
         Some (if newCommits = [] then Inr NoNewCommits else Inl (InvalidPrefix p),
               changelogData)"
proof (cases "newCommits = []")
  case True
  then show ?thesis by (simp add: analyzeAndVersion_no_commits)
next
  case False
  from analyzeAndVersion_throws [OF False assms(1)
      validatePrefixTransition_invalid [OF assms(2,3)]]
  show ?thesis using False by simp
qed

lemma gamma_invalid: "lit ''gamma'' \<noteq> [] \<and> lit ''gamma'' \<notin> set validPrefixes"
  by (simp add: validPrefixes_def lit_def)

text \<open>With no new commit the prefix \<open>gamma\<close> is not rejected: the call reports that there
  is nothing to version.\<close>

theorem invalid_prefix_no_commits_counterexample:
  "lit ''gamma'' \<noteq> [] \<and> lit ''gamma'' \<notin> set validPrefixes \<and>
   analyzeAndVersion \<lparr>otype = None, oprefix = Some (lit ''gamma'')\<rparr>
     \<lparr>current_version = lit ''0.1.0'', versions = []\<rparr> [] (Day 0)
   = Some (Inr NoNewCommits, \<lparr>current_version = lit ''0.1.0'', versions = []\<rparr>)"
  using gamma_invalid by (simp add: analyzeAndVersion_no_commits)

theorem invalid_prefix_rejected_witness:
  "analyzeAndVersion \<lparr>otype = None, oprefix = Some (lit ''gamma'')\<rparr>
     \<lparr>current_version = lit ''0.1.0'', versions = []\<rparr>
     [\<lparr>hash = lit ''a1'', cdate = Day 0, ctitle = lit ''fix(ui - layout)'',
       cdescription = lit ''fix(ui - layout)'', technical_section = None,
       changelog_section = None\<rparr>] (Day 1)
   = Some (Inl (InvalidPrefix (lit ''gamma'')),
           \<lparr>current_version = lit ''0.1.0'', versions = []\<rparr>)"
proof -
  have "oprefix \<lparr>otype = None, oprefix = Some (lit ''gamma'')\<rparr> = Some (lit ''gamma'')"
    by simp
  from invalid_prefix_rejected [OF this conjunct1 [OF gamma_invalid] conjunct2 [OF gamma_invalid]]
  show ?thesis by simp
qed

section \<open>The version that is cut\<close>

lemma analyzeAndVersion_cut:
  assumes "newCommits \<noteq> []"
    and "(case oprefix options of
            None \<Rightarrow> Inr False
          | Some p \<Rightarrow> validatePrefixTransition (current_version changelogData) (Some p)) = Inr w"
    and "incrementVersion (current_version changelogData) (determineVersionType newCommits)
           (oprefix options)
           (Some (case otype options of Some t \<Rightarrow> t
                  | None \<Rightarrow> determineVersionType newCommits)) = Some newVersion"
  shows "\<exists>entry. analyzeAndVersion options changelogData newCommits today =
           Some (Inr (Versioned newVersion),
                 \<lparr>current_version = newVersion, versions = entry # versions changelogData\<rparr>)
         \<and> version entry = newVersion
         \<and> commit_hash entry = hash (last newCommits)
         \<and> changes entry = allChanges newCommits"
  using assms by (simp add: analyzeAndVersion_def Let_def)

lemma analyzeAndVersion_Versioned:
  assumes "analyzeAndVersion options changelogData newCommits today =
             Some (Inr (Versioned v), data')"
  shows "newCommits \<noteq> [] \<and> current_version data' = v \<and>
         (\<exists>entry. versions data' = entry # versions changelogData \<and> version entry = v
            \<and> commit_hash entry = hash (last newCommits)
            \<and> changes entry = allChanges newCommits)"
  using assms
  by (auto simp: analyzeAndVersion_def Let_def split: if_splits sum.splits option.splits)

lemma cli_stable_args:
  "parseArgs [lit ''--type'', lit ''minor'', lit ''--prefix'', []]
   = RunVersion \<lparr>otype = Some Minor, oprefix = None\<rparr>"
  by (simp add: parseArgs_def argAfter_def indexOf_def versionTypeOfString_def lit_def Let_def)

lemma alpha_minor_carry:
  "incrementVersion (lit ''alpha-1.2.0'') vt None (Some Minor) = Some (lit ''alpha-1.3.0'')"
  by (simp add: version_eval)

lemma alpha_minor_stable:
  "incrementVersion (lit ''alpha-1.2.0'') vt (Some []) (Some Minor) = Some (lit ''1.3.0'')"
  by (simp add: version_eval)

text \<open>
  Claim C6. The help of the script documents \<open>--prefix ''\<close> as the request for a stable
  version. The script turns the empty prefix into an absent one before it calls
  \<open>analyzeAndVersion\<close>, so from \<open>alpha-1.2.0\<close> with \<open>--type minor --prefix ''\<close> the new
  version is \<open>alpha-1.3.0\<close>: the current prefix is carried forward. Called with the empty
  prefix itself, \<open>analyzeAndVersion\<close> gives \<open>1.3.0\<close>.
\<close>

theorem cli_stable_prefix_not_applied:
  "parseArgs [lit ''--type'', lit ''minor'', lit ''--prefix'', []]
     = RunVersion \<lparr>otype = Some Minor, oprefix = None\<rparr> \<and>
   map_option fst
     (analyzeAndVersion \<lparr>otype = Some Minor, oprefix = None\<rparr>
        \<lparr>current_version = lit ''alpha-1.2.0'', versions = []\<rparr>
        [\<lparr>hash = lit ''a1'', cdate = Day 0, ctitle = lit ''fix(ui - layout)'',
          cdescription = lit ''fix(ui - layout)'', technical_section = None,
          changelog_section = None\<rparr>] (Day 1))
     = Some (Inr (Versioned (lit ''alpha-1.3.0''))) \<and>
   map_option fst
     (analyzeAndVersion \<lparr>otype = Some Minor, oprefix = Some []\<rparr>
        \<lparr>current_version = lit ''alpha-1.2.0'', versions = []\<rparr>
        [\<lparr>hash = lit ''a1'', cdate = Day 0, ctitle = lit ''fix(ui - layout)'',
          cdescription = lit ''fix(ui - layout)'', technical_section = None,
          changelog_section = None\<rparr>] (Day 1))
     = Some (Inr (Versioned (lit ''1.3.0'')))"
proof -
  let ?c = "\<lparr>hash = lit ''a1'', cdate = Day 0, ctitle = lit ''fix(ui - layout)'',
          cdescription = lit ''fix(ui - layout)'', technical_section = None,
          changelog_section = None\<rparr>"
  let ?d = "\<lparr>current_version = lit ''alpha-1.2.0'', versions = []\<rparr>"
  have 1: "map_option fst (analyzeAndVersion \<lparr>otype = Some Minor, oprefix = None\<rparr> ?d [?c] (Day 1))
     = Some (Inr (Versioned (lit ''alpha-1.3.0'')))"
    using analyzeAndVersion_cut [where newCommits = "[?c]"
        and options = "\<lparr>otype = Some Minor, oprefix = None\<rparr>" and changelogData = ?d
        and w = False and newVersion = "lit ''alpha-1.3.0''" and today = "Day 1"]
    by (auto simp: alpha_minor_carry)
  obtain w where w: "validatePrefixTransition (lit ''alpha-1.2.0'') (Some []) = Inr w"
    using validatePrefixTransition_valid [of "[]"] by auto
  have 2: "map_option fst (analyzeAndVersion \<lparr>otype = Some Minor, oprefix = Some []\<rparr> ?d [?c] (Day 1))
     = Some (Inr (Versioned (lit ''1.3.0'')))"
    using analyzeAndVersion_cut [where newCommits = "[?c]"
        and options = "\<lparr>otype = Some Minor, oprefix = Some []\<rparr>" and changelogData = ?d
        and w = w and newVersion = "lit ''1.3.0''" and today = "Day 1"] w
    by (auto simp: alpha_minor_stable)
  show ?thesis using 1 2 cli_stable_args by simp
qed

lemma groupVersions_hashes:
  "groupVersions total' i gs = Inr vs \<Longrightarrow>
   map commit_hash vs = map (\<lambda>g. hash (last (commits g))) gs"
proof (induction gs arbitrary: i vs)
  case Nil
  then show ?case by simp
next
  case (Cons g gs)
  then show ?case
    by (auto simp: groupVersion_def Let_def split: sum.splits if_splits)
qed

text \<open>
  Claim C8, as the code has it. The commits are ordered oldest first, and the hash
  recorded in a version is the hash of the last one, the newest contributing commit:
  in the version \<open>analyzeAndVersion\<close> puts at the head of the history, and in every
  version \<open>initializeFromHistory\<close> makes of a group.
\<close>

theorem commit_hash_is_newest:
  "(analyzeAndVersion options changelogData newCommits today
      = Some (Inr (Versioned v), data') \<longrightarrow>
    newCommits \<noteq> [] \<and> commit_hash (hd (versions data')) = hash (last newCommits)) \<and>
   (initializeFromHistory allCommits = Inr (Some data'') \<longrightarrow>
    map commit_hash (versions data'')
      = map (\<lambda>g. hash (last (commits g))) (groupCommitsIntoVersions allCommits))"
proof (rule conjI; rule impI)
  assume a: "analyzeAndVersion options changelogData newCommits today
      = Some (Inr (Versioned v), data')"
  from analyzeAndVersion_Versioned [OF a]
  show "newCommits \<noteq> [] \<and> commit_hash (hd (versions data')) = hash (last newCommits)"
    by auto
next
  assume "initializeFromHistory allCommits = Inr (Some data'')"
  then show "map commit_hash (versions data'')
      = map (\<lambda>g. hash (last (commits g))) (groupCommitsIntoVersions allCommits)"
    by (auto simp: initializeFromHistory_def Let_def split: if_splits sum.splits
        dest: groupVersions_hashes)
qed

text \<open>A cut from two commits, \<open>a1\<close> the older and \<open>b2\<close> the newer, computed in full.\<close>

lemma two_commit_cut:
  "analyzeAndVersion \<lparr>otype = None, oprefix = None\<rparr>
     \<lparr>current_version = lit ''0.1.0'', versions = []\<rparr>
     [\<lparr>hash = lit ''a1'', cdate = Day 0, ctitle = lit ''fix(ui) - layout'',
       cdescription = lit ''fix(ui) - layout'', technical_section = None,
       changelog_section = None\<rparr>,
      \<lparr>hash = lit ''b2'', cdate = Day 1, ctitle = lit ''docs(readme) - usage'',
       cdescription = lit ''docs(readme) - usage'', technical_section = None,
       changelog_section = None\<rparr>] (Day 2)
   = Some (Inr (Versioned (lit ''0.1.1'')),
       \<lparr>current_version = lit ''0.1.1'',
        versions =
          [\<lparr>version = lit ''0.1.1'', vdate = Day 2, vtype = Patch,
            vtitle = lit ''Correcci'' @ [0xF3] @ lit ''n: layout'',
            changes =
              [\<lparr>etype = Fix, etitle = lit ''layout'', edescription = lit ''fix(ui) - layout''\<rparr>,
               \<lparr>etype = Improvement, etitle = lit ''docs(readme) - usage'',
                edescription = lit ''docs(readme) - usage''\<rparr>],
            technical_notes = [], breaking_changes = [],
            commit_hash = lit ''b2'', vprefix = None\<rparr>]\<rparr>)"
  by (simp add: analyzeAndVersion_def version_eval string_eval changes_eval
      generateVersionTitle_def capitalize_def)

lemma two_commit_history:
  "initializeFromHistory
     [\<lparr>hash = lit ''a1'', cdate = Day 0, ctitle = lit ''fix(ui) - layout'',
       cdescription = lit ''fix(ui) - layout'', technical_section = None,
       changelog_section = None\<rparr>,
      \<lparr>hash = lit ''b2'', cdate = Day 1, ctitle = lit ''docs(readme) - usage'',
       cdescription = lit ''docs(readme) - usage'', technical_section = None,
       changelog_section = None\<rparr>]
   = Inr (Some
       \<lparr>current_version = lit ''1.0.0'',
        versions =
          [\<lparr>version = lit ''1.0.0'', vdate = Day 0, vtype = Patch,
            vtitle = lit ''Correcciones y optimizaciones'',
            changes =
              [\<lparr>etype = Fix, etitle = lit ''layout'', edescription = lit ''fix(ui) - layout''\<rparr>,
               \<lparr>etype = Improvement, etitle = lit ''docs(readme) - usage'',
                edescription = lit ''docs(readme) - usage''\<rparr>],
            technical_notes = [], breaking_changes = [],
            commit_hash = lit ''b2'', vprefix = None\<rparr>]\<rparr>)"
  by (simp add: group_eval string_eval changes_eval)

text \<open>The recorded hash is \<open>b2\<close>, not the hash \<open>a1\<close> of the oldest commit.\<close>

theorem commit_hash_oldest_counterexample:
  "hash (hd [\<lparr>hash = lit ''a1'', cdate = Day 0, ctitle = lit ''fix(ui) - layout'',
       cdescription = lit ''fix(ui) - layout'', technical_section = None,
       changelog_section = None\<rparr>,
      \<lparr>hash = lit ''b2'', cdate = Day 1, ctitle = lit ''docs(readme) - usage'',
       cdescription = lit ''docs(readme) - usage'', technical_section = None,
       changelog_section = None\<rparr>]) = lit ''a1'' \<and>
   map_option (map commit_hash \<circ> versions \<circ> snd)
     (analyzeAndVersion \<lparr>otype = None, oprefix = None\<rparr>
       \<lparr>current_version = lit ''0.1.0'', versions = []\<rparr>
       [\<lparr>hash = lit ''a1'', cdate = Day 0, ctitle = lit ''fix(ui) - layout'',
         cdescription = lit ''fix(ui) - layout'', technical_section = None,
         changelog_section = None\<rparr>,
        \<lparr>hash = lit ''b2'', cdate = Day 1, ctitle = lit ''docs(readme) - usage'',
         cdescription = lit ''docs(readme) - usage'', technical_section = None,
         changelog_section = None\<rparr>] (Day 2)) = Some [lit ''b2''] \<and>
   lit ''b2'' \<noteq> lit ''a1''"
  by (simp add: two_commit_cut) (simp add: lit_def)

theorem commit_hash_is_newest_witness:
  "\<exists>data' data''.
     analyzeAndVersion \<lparr>otype = None, oprefix = None\<rparr>
       \<lparr>current_version = lit ''0.1.0'', versions = []\<rparr>
       [\<lparr>hash = lit ''a1'', cdate = Day 0, ctitle = lit ''fix(ui) - layout'',
         cdescription = lit ''fix(ui) - layout'', technical_section = None,
         changelog_section = None\<rparr>,
        \<lparr>hash = lit ''b2'', cdate = Day 1, ctitle = lit ''docs(readme) - usage'',
         cdescription = lit ''docs(readme) - usage'', technical_section = None,
         changelog_section = None\<rparr>] (Day 2)
       = Some (Inr (Versioned (lit ''0.1.1'')), data') \<and>
     commit_hash (hd (versions data')) = lit ''b2'' \<and>
     initializeFromHistory
       [\<lparr>hash = lit ''a1'', cdate = Day 0, ctitle = lit ''fix(ui) - layout'',
         cdescription = lit ''fix(ui) - layout'', technical_section = None,
         changelog_section = None\<rparr>,
        \<lparr>hash = lit ''b2'', cdate = Day 1, ctitle = lit ''docs(readme) - usage'',
         cdescription = lit ''docs(readme) - usage'', technical_section = None,
         changelog_section = None\<rparr>] = Inr (Some data'') \<and>
     map commit_hash (versions data'') = [lit ''b2'']"
proof -
  let ?cs = "[\<lparr>hash = lit ''a1'', cdate = Day 0, ctitle = lit ''fix(ui) - layout'',
         cdescription = lit ''fix(ui) - layout'', technical_section = None,
         changelog_section = None\<rparr>,
        \<lparr>hash = lit ''b2'', cdate = Day 1, ctitle = lit ''docs(readme) - usage'',
         cdescription = lit ''docs(readme) - usage'', technical_section = None,
         changelog_section = None\<rparr>]"
  let ?d' = "\<lparr>current_version = lit ''0.1.1'',
        versions =
          [\<lparr>version = lit ''0.1.1'', vdate = Day 2, vtype = Patch,
            vtitle = lit ''Correcci'' @ [0xF3] @ lit ''n: layout'',
            changes =
              [\<lparr>etype = Fix, etitle = lit ''layout'', edescription = lit ''fix(ui) - layout''\<rparr>,
               \<lparr>etype = Improvement, etitle = lit ''docs(readme) - usage'',
                edescription = lit ''docs(readme) - usage''\<rparr>],
            technical_notes = [], breaking_changes = [],
            commit_hash = lit ''b2'', vprefix = None\<rparr>]\<rparr>"
  let ?d'' = "\<lparr>current_version = lit ''1.0.0'',
        versions =
          [\<lparr>version = lit ''1.0.0'', vdate = Day 0, vtype = Patch,
            vtitle = lit ''Correcciones y optimizaciones'',
            changes =
              [\<lparr>etype = Fix, etitle = lit ''layout'', edescription = lit ''fix(ui) - layout''\<rparr>,
               \<lparr>etype = Improvement, etitle = lit ''docs(readme) - usage'',
                edescription = lit ''docs(readme) - usage''\<rparr>],
            technical_notes = [], breaking_changes = [],
            commit_hash = lit ''b2'', vprefix = None\<rparr>]\<rparr>"
  have a: "analyzeAndVersion \<lparr>otype = None, oprefix = None\<rparr>
       \<lparr>current_version = lit ''0.1.0'', versions = []\<rparr> ?cs (Day 2)
       = Some (Inr (Versioned (lit ''0.1.1'')), ?d')"
    by (rule two_commit_cut)
  have b: "initializeFromHistory ?cs = Inr (Some ?d'')"
    by (rule two_commit_history)
  have "commit_hash (hd (versions ?d')) = hash (last ?cs)"
    using commit_hash_is_newest [where newCommits = ?cs and data' = ?d'
        and options = "\<lparr>otype = None, oprefix = None\<rparr>"
        and changelogData = "\<lparr>current_version = lit ''0.1.0'', versions = []\<rparr>"
        and today = "Day 2" and v = "lit ''0.1.1''"] a
    by blast
  then have c: "commit_hash (hd (versions ?d')) = lit ''b2''"
    by simp
  have d: "map commit_hash (versions ?d'') = [lit ''b2'']"
    by simp
  show ?thesis
    by (rule exI [of _ ?d'], rule exI [of _ ?d'']) (intro conjI a b c d)
qed

section \<open>The type of the entries of a section\<close>

text \<open>
  Claim C4, as the code has it. Every entry of a section gets the same type, found in
  the lowercased heading in this order: \<open>fix\<close> or the bug emoji gives \<open>fix\<close>; else
  \<open>feature\<close> or the sparkle emoji gives \<open>feature\<close>; else \<open>breaking\<close> gives \<open>breaking\<close>;
  else \<open>improvement\<close>. A heading that contains both \<open>breaking\<close> and \<open>fix\<close> gives \<open>fix\<close>.
\<close>

theorem section_type_priority:
  "map etype (processSectionEntries section' entries)
     = replicate (length entries)
         (if includes_str section' (lit ''fix'') \<or> includes_str section' bugEmoji then Fix
          else if includes_str section' (lit ''feature'') \<or> includes_str section' sparkleEmoji
          then Feature
          else if includes_str section' (lit ''breaking'') then Breaking
          else Improvement) \<and>
   (includes_str section' (lit ''breaking'') \<and> includes_str section' (lit ''fix'')
      \<longrightarrow> list_all (\<lambda>e. etype e = Fix) (processSectionEntries section' entries))"
  by (simp add: processSectionEntries_def sectionType_def map_replicate_const list_all_iff
      comp_def)

lemma breaking_fixes_section:
  "parseChangelogSection (lit ''## Breaking fixes'' @ [newline] @ lit ''- Removed the old API. Use v2.'')
   = [\<lparr>etype = Fix, etitle = lit ''Removed the old API'',
       edescription = lit ''Removed the old API. Use v2.''\<rparr>]"
  by (simp add: string_eval changes_eval)

text \<open>The heading \<open>Breaking fixes\<close> contains both words and its entry is a \<open>fix\<close>.\<close>

theorem section_type_breaking_counterexample:
  "includes_str (lit ''breaking fixes'') (lit ''breaking'') \<and>
   includes_str (lit ''breaking fixes'') (lit ''fix'') \<and>
   map etype (processSectionEntries (lit ''breaking fixes'') [lit ''Removed the old API.''])
     = [Fix] \<and>
   map etype (parseChangelogSection
       (lit ''## Breaking fixes'' @ [newline] @ lit ''- Removed the old API. Use v2.''))
     = [Fix]"
proof -
  have "includes_str (lit ''breaking fixes'') (lit ''breaking'')"
    "includes_str (lit ''breaking fixes'') (lit ''fix'')"
    "map etype (processSectionEntries (lit ''breaking fixes'') [lit ''Removed the old API.''])
     = [Fix]"
    by (simp_all add: string_eval processSectionEntries_def sectionType_def)
  then show ?thesis
    by (simp only: breaking_fixes_section) simp
qed

theorem section_type_priority_witness:
  "includes_str (lit ''breaking fixes'') (lit ''breaking'') \<and>
   includes_str (lit ''breaking fixes'') (lit ''fix'') \<and>
   list_all (\<lambda>e. etype e = Fix)
     (processSectionEntries (lit ''breaking fixes'') [lit ''Removed the old API.''])"
proof -
  have i: "includes_str (lit ''breaking fixes'') (lit ''breaking'')"
    "includes_str (lit ''breaking fixes'') (lit ''fix'')"
    by (simp_all add: string_eval)
  from section_type_priority [of "lit ''breaking fixes''" "[lit ''Removed the old API.'']"] i
  show ?thesis by blast
qed

section \<open>The bump type and the entries\<close>

lemma split_nonempty: "split s sep \<noteq> []"
  by (induction s) (auto split: list.splits)

lemma split_hd_prefix: "split s sep = x # xs \<Longrightarrow> prefix x s"
  by (induction s arbitrary: x xs) (auto split: if_splits list.splits)

lemma split_sublist: "l \<in> set (split s sep) \<Longrightarrow> sublist l s"
proof (induction s arbitrary: l)
  case Nil
  then show ?case by simp
next
  case (Cons c cs)
  show ?case
  proof (cases "c = sep")
    case True
    then have "l = [] \<or> l \<in> set (split cs sep)" using Cons.prems by auto
    then show ?thesis
      using Cons.IH by (auto intro: sublist_Cons_right [THEN iffD2])
  next
    case False
    obtain x xs where s: "split cs sep = x # xs"
      using split_nonempty [of cs sep] by (cases "split cs sep") auto
    then have "l = c # x \<or> l \<in> set xs" using Cons.prems False by auto
    then show ?thesis
    proof
      assume "l = c # x"
      then have "prefix l (c # cs)" using split_hd_prefix [OF s] by simp
      then show ?thesis by (rule prefix_imp_sublist)
    next
      assume "l \<in> set xs"
      then have "sublist l cs" using Cons.IH s by simp
      then show ?thesis by (simp add: sublist_Cons_right)
    qed
  qed
qed

lemma trim_sublist: "sublist (trim s) s"
proof -
  have "sublist (dropWhile isWhiteSpace (rev (dropWhile isWhiteSpace s)))
          (rev (dropWhile isWhiteSpace s))"
    by (rule sublist_dropWhile)
  then have "sublist (trim s) (dropWhile isWhiteSpace s)"
    unfolding trim_def by (metis rev_rev_ident sublist_rev)
  moreover have "sublist (dropWhile isWhiteSpace s) s"
    by (rule sublist_dropWhile)
  ultimately show ?thesis
    by (rule sublist_order.order.trans)
qed

lemma removeHashes_sublist: "sublist (removeHashes l) l"
proof (cases "startsWith l (lit ''##'')")
  case True
  have "sublist (dropWhile isWhiteSpace (drop 2 l)) (drop 2 l)"
    by (rule sublist_dropWhile)
  moreover have "sublist (drop 2 l) l" by (rule sublist_drop)
  ultimately have "sublist (dropWhile isWhiteSpace (drop 2 l)) l"
    by (rule sublist_order.order.trans)
  then show ?thesis
    using True by (simp add: removeHashes_def)
next
  case False
  then show ?thesis by (simp add: removeHashes_def)
qed

lemma changelogLines_sublist: "l \<in> set (changelogLines s) \<Longrightarrow> sublist l s"
proof -
  assume "l \<in> set (changelogLines s)"
  then obtain l0 where l0: "l0 \<in> set (split s newline)" "l = trim l0"
    by (auto simp: changelogLines_def)
  have "sublist l l0" using l0(2) trim_sublist by simp
  moreover have "sublist l0 s" using l0(1) by (rule split_sublist)
  ultimately show ?thesis by (rule sublist_order.order.trans)
qed

lemma flushSection_type:
  "e \<in> set (flushSection cs ce es) \<Longrightarrow>
   e \<in> set es \<or> (cs \<noteq> [] \<and> etype e = sectionType cs)"
  by (auto simp: flushSection_def processSectionEntries_def split: if_splits)

lemma sectionLoop_type:
  "e \<in> set (sectionLoop lines cs ce es) \<Longrightarrow>
   e \<in> set es \<or> (cs \<noteq> [] \<and> etype e = sectionType cs)
   \<or> (\<exists>l \<in> set lines. etype e = sectionType (toLowerCase (removeHashes l)))"
proof (induction lines arbitrary: cs ce es)
  case Nil
  then show ?case using flushSection_type by auto
next
  case (Cons line rest)
  show ?case
  proof (cases "startsWith line (lit ''##'')")
    case True
    then have "e \<in> set (sectionLoop rest (toLowerCase (removeHashes line)) []
                 (flushSection cs ce es))"
      using Cons.prems by simp
    from Cons.IH [OF this] show ?thesis
      using flushSection_type [of e cs ce es] by auto
  next
    case False
    show ?thesis
    proof (cases "startsWith line (lit ''-'')")
      case True
      then have "e \<in> set (sectionLoop rest cs (ce @ [removeBullet line]) es)"
        using Cons.prems False by simp
      from Cons.IH [OF this] show ?thesis by auto
    next
      case f: False
      then have "e \<in> set (sectionLoop rest cs ce es)"
        using Cons.prems False by simp
      from Cons.IH [OF this] show ?thesis by auto
    qed
  qed
qed

lemma parseChangelogSection_type:
  assumes "e \<in> set (parseChangelogSection s)"
  shows "\<exists>h. sublist h s \<and> etype e = sectionType (toLowerCase h)"
proof -
  from assms have "e \<in> set (sectionLoop (changelogLines s) [] [] [])"
    by (simp add: parseChangelogSection_def split: if_splits)
  from sectionLoop_type [OF this]
  obtain l where l: "l \<in> set (changelogLines s)"
    "etype e = sectionType (toLowerCase (removeHashes l))"
    by auto
  have "sublist (removeHashes l) s"
    using removeHashes_sublist changelogLines_sublist [OF l(1)]
    by (rule sublist_order.order.trans)
  then show ?thesis using l(2) by blast
qed

lemma sublist_concat_map:
  assumes "sublist h s"
  shows "sublist (concat (map f h)) (concat (map f s))"
proof -
  from assms obtain ps ss where "s = ps @ h @ ss" by (auto simp: sublist_def)
  then show ?thesis by simp
qed

lemma includes_lower_mono:
  "sublist h s \<Longrightarrow> includes_str (toLowerCase h) w \<Longrightarrow> includes_str (toLowerCase s) w"
  unfolding includes_str_def toLowerCase_def
  by (meson sublist_concat_map sublist_order.order.trans)

lemma lowerUnits_sparkle: "0x2728 \<in> set (lowerUnits c) \<Longrightarrow> c = 0x2728"
  by (auto simp: lowerUnits_def split: if_splits)

lemma includes_lower_sparkle:
  "includes_str (toLowerCase h) sparkleEmoji \<Longrightarrow> includes_str h sparkleEmoji"
proof -
  assume "includes_str (toLowerCase h) sparkleEmoji"
  then obtain ps ss where "concat (map lowerUnits h) = ps @ [0x2728] @ ss"
    by (auto simp: includes_str_def toLowerCase_def sparkleEmoji_def sublist_def)
  then have "0x2728 \<in> set (concat (map lowerUnits h))" by simp
  then obtain c where "c \<in> set h" "0x2728 \<in> set (lowerUnits c)" by auto
  then have "0x2728 \<in> set h" using lowerUnits_sparkle by auto
  then obtain ps' ss' where "h = ps' @ 0x2728 # ss'" by (auto simp: in_set_conv_decomp)
  then show ?thesis
    by (auto simp: includes_str_def sparkleEmoji_def sublist_def)
qed

lemma sectionType_Feature:
  "sectionType sec = Feature \<Longrightarrow>
   includes_str sec (lit ''feature'') \<or> includes_str sec sparkleEmoji"
  by (auto simp: sectionType_def split: if_splits)

lemma sectionType_Breaking:
  "sectionType sec = Breaking \<Longrightarrow> includes_str sec (lit ''breaking'')"
  by (auto simp: sectionType_def split: if_splits)

lemma parse_feature_text:
  assumes "e \<in> set (parseChangelogSection s)" "etype e = Feature"
  shows "includes_str (toLowerCase s) (lit ''feature'') \<or> includes_str s sparkleEmoji"
proof -
  from parseChangelogSection_type [OF assms(1)]
  obtain h where h: "sublist h s" "etype e = sectionType (toLowerCase h)" by blast
  from sectionType_Feature [of "toLowerCase h"] h(2) assms(2)
  have "includes_str (toLowerCase h) (lit ''feature'')
        \<or> includes_str (toLowerCase h) sparkleEmoji" by simp
  then show ?thesis
  proof
    assume "includes_str (toLowerCase h) (lit ''feature'')"
    then show ?thesis using includes_lower_mono [OF h(1)] by blast
  next
    assume "includes_str (toLowerCase h) sparkleEmoji"
    then have "includes_str h sparkleEmoji" by (rule includes_lower_sparkle)
    then have "includes_str s sparkleEmoji"
      using h(1) unfolding includes_str_def by (meson sublist_order.order.trans)
    then show ?thesis ..
  qed
qed

lemma parse_breaking_text:
  assumes "e \<in> set (parseChangelogSection s)" "etype e = Breaking"
  shows "includes_str (toLowerCase s) (lit ''breaking'')"
proof -
  from parseChangelogSection_type [OF assms(1)]
  obtain h where h: "sublist h s" "etype e = sectionType (toLowerCase h)" by blast
  from sectionType_Breaking [of "toLowerCase h"] h(2) assms(2)
  have "includes_str (toLowerCase h) (lit ''breaking'')" by simp
  then show ?thesis using includes_lower_mono [OF h(1)] by blast
qed

lemma allChanges_concat: "allChanges newCommits = concat (map commitChanges newCommits)"
proof -
  have "foldl (\<lambda>acc commit. acc @ commitChanges commit) a newCommits
        = a @ concat (map commitChanges newCommits)" for a
    by (induction newCommits arbitrary: a) simp_all
  then show ?thesis by (simp add: allChanges_def)
qed

lemma feature_entry_commit:
  assumes "e \<in> set (commitChanges c)" "etype e = Feature"
  shows "hasFeature [c]"
proof (cases "changelog_section c")
  case None
  then show ?thesis
    using assms by (auto simp: commitChanges_def titleEntry_def hasFeature_def split: if_splits)
next
  case (Some s)
  show ?thesis
  proof (cases "s = []")
    case True
    then show ?thesis
      using assms Some
      by (auto simp: commitChanges_def titleEntry_def hasFeature_def split: if_splits)
  next
    case False
    then have "e \<in> set (parseChangelogSection s)"
      using assms(1) Some by (simp add: commitChanges_def)
    from parse_feature_text [OF this assms(2)] show ?thesis
      using Some by (auto simp: hasFeature_def)
  qed
qed

lemma breaking_entry_commit:
  assumes "e \<in> set (commitChanges c)" "etype e = Breaking"
  shows "\<exists>s. changelog_section c = Some s \<and> includes_str (toLowerCase s) (lit ''breaking'')"
proof (cases "changelog_section c")
  case None
  then show ?thesis
    using assms by (auto simp: commitChanges_def titleEntry_def split: if_splits)
next
  case (Some s)
  show ?thesis
  proof (cases "s = []")
    case True
    then show ?thesis
      using assms Some by (auto simp: commitChanges_def titleEntry_def split: if_splits)
  next
    case False
    then have "e \<in> set (parseChangelogSection s)"
      using assms(1) Some by (simp add: commitChanges_def)
    from parse_breaking_text [OF this assms(2)] show ?thesis
      using Some by simp
  qed
qed

lemma determineVersionType_not_Initial: "determineVersionType cs \<noteq> Initial"
  by (simp add: determineVersionType_def)

text \<open>The Kelvin sign is lowercased to the letter \<open>k\<close>.\<close>

lemma kelvin_lowercase:
  "toLowerCase (lit ''BREA'' @ [0x212A] @ lit ''ING'') = lit ''breaking''"
  by (simp add: toLowerCase_def lowerUnits_def lit_def)

lemma lower_breaking: "toLowerCase (lit ''breaking'') = lit ''breaking''"
  by (simp add: toLowerCase_def lowerUnits_def lit_def)

lemma includes_breaking_lower:
  assumes "includes_str s (lit ''breaking'')"
  shows "includes_str (toLowerCase s) (lit ''breaking'')"
proof -
  from assms have "sublist (lit ''breaking'') s" by (simp add: includes_str_def)
  from sublist_concat_map [OF this, of lowerUnits]
  show ?thesis
    using lower_breaking by (simp add: includes_str_def toLowerCase_def)
qed

lemma hasBreaking_mentions:
  assumes "hasBreaking cs"
  shows "list_ex mentionsBreaking cs"
proof -
  from assms obtain c where c: "c \<in> set cs"
    "(case changelog_section c of None \<Rightarrow> False
      | Some s \<Rightarrow> includes_str s (lit ''breaking''))
     \<or> includes_str (toLowerCase (ctitle c)) (lit ''breaking'')"
    by (auto simp: hasBreaking_def list_ex_iff)
  then have "mentionsBreaking c"
    by (auto simp: mentionsBreaking_def includes_breaking_lower split: option.splits)
  then show ?thesis using c(1) by (auto simp: list_ex_iff)
qed

lemma feature_entry_hasFeature:
  assumes "list_ex (\<lambda>e. etype e = Feature) (allChanges cs)"
  shows "hasFeature cs"
proof -
  from assms obtain c e where ce: "c \<in> set cs" "e \<in> set (commitChanges c)" "etype e = Feature"
    by (auto simp: allChanges_concat list_ex_iff)
  from feature_entry_commit [OF ce(2,3)] ce(1)
  show ?thesis by (auto simp: hasFeature_def list_ex_iff)
qed

lemma breaking_entry_mentions:
  assumes "list_ex (\<lambda>e. etype e = Breaking) (allChanges cs)"
  shows "\<exists>c \<in> set cs. \<exists>s. changelog_section c = Some s
           \<and> includes_str (toLowerCase s) (lit ''breaking'')"
proof -
  from assms obtain c e where ce: "c \<in> set cs" "e \<in> set (commitChanges c)" "etype e = Breaking"
    by (auto simp: allChanges_concat list_ex_iff)
  from breaking_entry_commit [OF ce(2,3)] ce(1) show ?thesis by blast
qed

lemma noChangelog_changes: "noChangelog c \<Longrightarrow> commitChanges c = [titleEntry c]"
  by (auto simp: noChangelog_def commitChanges_def)

lemma noChangelog_feature:
  assumes "list_all noChangelog cs"
  shows "list_ex (\<lambda>e. etype e = Feature) (allChanges cs) = hasFeature cs"
proof -
  have 1: "list_ex (\<lambda>e. etype e = Feature) (commitChanges c)
           = startsWith (ctitle c) (lit ''feat('')" if "noChangelog c" for c
    using that by (simp add: noChangelog_changes titleEntry_def)
  have 2: "(startsWith (ctitle c) (lit ''feat('')
            \<or> (case changelog_section c of None \<Rightarrow> False
                | Some s \<Rightarrow> includes_str s sparkleEmoji)
            \<or> (case changelog_section c of None \<Rightarrow> False
                | Some s \<Rightarrow> includes_str (toLowerCase s) (lit ''feature'')))
           = startsWith (ctitle c) (lit ''feat('')" if "noChangelog c" for c
    using that
    by (auto simp: noChangelog_def includes_str_def sparkleEmoji_def toLowerCase_def lit_def)
  have "list_ex (\<lambda>e. etype e = Feature) (allChanges cs)
        = (\<exists>c \<in> set cs. list_ex (\<lambda>e. etype e = Feature) (commitChanges c))"
    by (auto simp: allChanges_concat list_ex_iff)
  also have "\<dots> = (\<exists>c \<in> set cs. startsWith (ctitle c) (lit ''feat(''))"
    using assms 1 by (auto simp: list_all_iff)
  also have "\<dots> = hasFeature cs"
    unfolding hasFeature_def list_ex_iff using assms 2 by (auto simp: list_all_iff)
  finally show ?thesis .
qed

lemma noChangelog_breaking:
  assumes "list_all noChangelog cs"
  shows "hasBreaking cs
         = list_ex (\<lambda>c. includes_str (toLowerCase (ctitle c)) (lit ''breaking'')) cs"
proof -
  have "(case changelog_section c of None \<Rightarrow> False
         | Some s \<Rightarrow> includes_str s (lit ''breaking'')) = False" if "noChangelog c" for c
    using that by (auto simp: noChangelog_def includes_str_def lit_def)
  then show ?thesis
    unfolding hasBreaking_def list_ex_iff using assms by (auto simp: list_all_iff)
qed

text \<open>
  Claim C1, as the code has it. The bump type is detected from the titles and changelog
  texts of the commits, not from the entries made of them. It is \<open>major\<close> when a title
  (lowercased) or a changelog text contains \<open>breaking\<close>; when no title and no changelog
  text mentions the word in any letter case, it is \<open>minor\<close> if a title starts with
  \<open>feat(\<close> or a changelog text contains the sparkle emoji or (lowercased) \<open>feature\<close>, and
  \<open>patch\<close> otherwise. For the entries of the batch: a \<open>breaking\<close> entry gives \<open>major\<close>
  whenever every changelog text that mentions the word also holds it in lower case; a
  \<open>feature\<close> entry gives \<open>minor\<close> or \<open>major\<close>, and \<open>minor\<close> when nothing mentions
  \<open>breaking\<close>; and for commits without changelog section whose titles do not mention
  \<open>breaking\<close> the type is \<open>minor\<close> if there is a \<open>feature\<close> entry and \<open>patch\<close> if not.
\<close>

theorem bump_type_detection:
  "(hasBreaking cs \<longrightarrow> determineVersionType cs = Major) \<and>
   (\<not> list_ex mentionsBreaking cs \<longrightarrow>
      determineVersionType cs = (if hasFeature cs then Minor else Patch)) \<and>
   (list_ex (\<lambda>e. etype e = Breaking) (allChanges cs) \<and>
    list_all (\<lambda>c. case changelog_section c of
                    None \<Rightarrow> True
                  | Some s \<Rightarrow> includes_str (toLowerCase s) (lit ''breaking'')
                               \<longrightarrow> includes_str s (lit ''breaking'')) cs \<longrightarrow>
      determineVersionType cs = Major) \<and>
   (list_ex (\<lambda>e. etype e = Feature) (allChanges cs) \<longrightarrow>
      determineVersionType cs = Minor \<or> determineVersionType cs = Major) \<and>
   (list_ex (\<lambda>e. etype e = Feature) (allChanges cs) \<and> \<not> list_ex mentionsBreaking cs \<longrightarrow>
      determineVersionType cs = Minor) \<and>
   (list_all noChangelog cs \<and>
    \<not> list_ex (\<lambda>c. includes_str (toLowerCase (ctitle c)) (lit ''breaking'')) cs \<longrightarrow>
      determineVersionType cs
        = (if list_ex (\<lambda>e. etype e = Feature) (allChanges cs) then Minor else Patch))"
proof (intro conjI impI)
  assume "hasBreaking cs"
  then show "determineVersionType cs = Major" by (simp add: determineVersionType_def)
next
  assume "\<not> list_ex mentionsBreaking cs"
  then have "\<not> hasBreaking cs" using hasBreaking_mentions by blast
  then show "determineVersionType cs = (if hasFeature cs then Minor else Patch)"
    by (simp add: determineVersionType_def)
next
  assume a: "list_ex (\<lambda>e. etype e = Breaking) (allChanges cs) \<and>
    list_all (\<lambda>c. case changelog_section c of
                    None \<Rightarrow> True
                  | Some s \<Rightarrow> includes_str (toLowerCase s) (lit ''breaking'')
                               \<longrightarrow> includes_str s (lit ''breaking'')) cs"
  then obtain c s where cs: "c \<in> set cs" "changelog_section c = Some s"
    "includes_str (toLowerCase s) (lit ''breaking'')"
    using breaking_entry_mentions by blast
  then have "includes_str s (lit ''breaking'')"
    using a by (auto simp: list_all_iff split: option.splits)
  then have "hasBreaking cs"
    using cs(1,2) unfolding hasBreaking_def list_ex_iff
    by (intro bexI [of _ c]) simp_all
  then show "determineVersionType cs = Major" by (simp add: determineVersionType_def)
next
  assume "list_ex (\<lambda>e. etype e = Feature) (allChanges cs)"
  then have "hasFeature cs" by (rule feature_entry_hasFeature)
  then show "determineVersionType cs = Minor \<or> determineVersionType cs = Major"
    by (simp add: determineVersionType_def)
next
  assume a: "list_ex (\<lambda>e. etype e = Feature) (allChanges cs) \<and> \<not> list_ex mentionsBreaking cs"
  then have "hasFeature cs" using feature_entry_hasFeature by blast
  moreover have "\<not> hasBreaking cs" using a hasBreaking_mentions by blast
  ultimately show "determineVersionType cs = Minor" by (simp add: determineVersionType_def)
next
  assume a: "list_all noChangelog cs \<and>
    \<not> list_ex (\<lambda>c. includes_str (toLowerCase (ctitle c)) (lit ''breaking'')) cs"
  then have "\<not> hasBreaking cs" using noChangelog_breaking by blast
  moreover have "list_ex (\<lambda>e. etype e = Feature) (allChanges cs) = hasFeature cs"
    using a noChangelog_feature by blast
  ultimately show "determineVersionType cs
        = (if list_ex (\<lambda>e. etype e = Feature) (allChanges cs) then Minor else Patch)"
    by (simp add: determineVersionType_def)
qed

text \<open>A commit without changelog section whose title mentions \<open>breaking\<close> gives one
  \<open>fix\<close> entry, and the detected type is \<open>major\<close>; a commit titled \<open>feat(...)\<close> whose
  changelog section has only improvements gives no \<open>feature\<close> entry, and the detected
  type is \<open>minor\<close>.\<close>

theorem bump_type_title_counterexample:
  "map etype
     (allChanges
        [\<lparr>hash = lit ''a1'', cdate = Day 0, ctitle = lit ''fix(ui) - breaking layout'',
          cdescription = lit ''fix(ui) - breaking layout'', technical_section = None,
          changelog_section = None\<rparr>]) = [Fix] \<and>
   determineVersionType
     [\<lparr>hash = lit ''a1'', cdate = Day 0, ctitle = lit ''fix(ui) - breaking layout'',
       cdescription = lit ''fix(ui) - breaking layout'', technical_section = None,
       changelog_section = None\<rparr>] = Major \<and>
   map etype
     (allChanges
        [\<lparr>hash = lit ''b2'', cdate = Day 0, ctitle = lit ''feat(ui) - theme'',
          cdescription = lit ''feat(ui) - theme'', technical_section = None,
          changelog_section =
            Some (lit ''## Improvements'' @ [newline] @ lit ''- Faster start.'')\<rparr>])
     = [Improvement] \<and>
   determineVersionType
     [\<lparr>hash = lit ''b2'', cdate = Day 0, ctitle = lit ''feat(ui) - theme'',
       cdescription = lit ''feat(ui) - theme'', technical_section = None,
       changelog_section =
         Some (lit ''## Improvements'' @ [newline] @ lit ''- Faster start.'')\<rparr>] = Minor"
  by (simp add: string_eval changes_eval)

text \<open>The changelog text is searched for \<open>breaking\<close> as it is written, while the
  headings are lowercased before they are classified: under the heading
  \<open>Breaking Changes\<close> the entry is \<open>breaking\<close> and the detected type is \<open>patch\<close>.\<close>

lemma breaking_heading_capitalised:
  "map etype
     (allChanges
        [\<lparr>hash = lit ''a1'', cdate = Day 0, ctitle = lit ''refactor(api) - remove v1'',
          cdescription = lit ''refactor(api) - remove v1'', technical_section = None,
          changelog_section =
            Some (lit ''## Breaking Changes'' @ [newline] @ lit ''- Removed the v1 API.'')\<rparr>])
     = [Breaking] \<and>
   determineVersionType
     [\<lparr>hash = lit ''a1'', cdate = Day 0, ctitle = lit ''refactor(api) - remove v1'',
       cdescription = lit ''refactor(api) - remove v1'', technical_section = None,
       changelog_section =
         Some (lit ''## Breaking Changes'' @ [newline] @ lit ''- Removed the v1 API.'')\<rparr>]
     = Patch"
  by (simp add: string_eval changes_eval)

theorem bump_type_detection_witness:
  "list_ex (\<lambda>e. etype e = Breaking)
     (allChanges
        [\<lparr>hash = lit ''a1'', cdate = Day 0, ctitle = lit ''refactor(api) - remove v1'',
          cdescription = lit ''refactor(api) - remove v1'', technical_section = None,
          changelog_section =
            Some (lit ''## breaking changes'' @ [newline] @ lit ''- Removed the v1 API.'')\<rparr>,
         \<lparr>hash = lit ''b2'', cdate = Day 1, ctitle = lit ''feat(ui) - dark mode'',
          cdescription = lit ''feat(ui) - dark mode'', technical_section = None,
          changelog_section = None\<rparr>]) \<and>
   determineVersionType
     [\<lparr>hash = lit ''a1'', cdate = Day 0, ctitle = lit ''refactor(api) - remove v1'',
       cdescription = lit ''refactor(api) - remove v1'', technical_section = None,
       changelog_section =
         Some (lit ''## breaking changes'' @ [newline] @ lit ''- Removed the v1 API.'')\<rparr>,
      \<lparr>hash = lit ''b2'', cdate = Day 1, ctitle = lit ''feat(ui) - dark mode'',
       cdescription = lit ''feat(ui) - dark mode'', technical_section = None,
       changelog_section = None\<rparr>] = Major \<and>
   list_ex (\<lambda>e. etype e = Feature)
     (allChanges
        [\<lparr>hash = lit ''b2'', cdate = Day 1, ctitle = lit ''feat(ui) - dark mode'',
          cdescription = lit ''feat(ui) - dark mode'', technical_section = None,
          changelog_section = None\<rparr>,
         \<lparr>hash = lit ''c3'', cdate = Day 2, ctitle = lit ''fix(ui) - layout'',
          cdescription = lit ''fix(ui) - layout'', technical_section = None,
          changelog_section = None\<rparr>]) \<and>
   determineVersionType
     [\<lparr>hash = lit ''b2'', cdate = Day 1, ctitle = lit ''feat(ui) - dark mode'',
       cdescription = lit ''feat(ui) - dark mode'', technical_section = None,
       changelog_section = None\<rparr>,
      \<lparr>hash = lit ''c3'', cdate = Day 2, ctitle = lit ''fix(ui) - layout'',
       cdescription = lit ''fix(ui) - layout'', technical_section = None,
       changelog_section = None\<rparr>] = Minor \<and>
   determineVersionType
     [\<lparr>hash = lit ''c3'', cdate = Day 2, ctitle = lit ''fix(ui) - layout'',
       cdescription = lit ''fix(ui) - layout'', technical_section = None,
       changelog_section = None\<rparr>] = Patch"
proof -
  let ?a = "\<lparr>hash = lit ''a1'', cdate = Day 0, ctitle = lit ''refactor(api) - remove v1'',
       cdescription = lit ''refactor(api) - remove v1'', technical_section = None,
       changelog_section =
         Some (lit ''## breaking changes'' @ [newline] @ lit ''- Removed the v1 API.'')\<rparr>"
  let ?b = "\<lparr>hash = lit ''b2'', cdate = Day 1, ctitle = lit ''feat(ui) - dark mode'',
       cdescription = lit ''feat(ui) - dark mode'', technical_section = None,
       changelog_section = None\<rparr>"
  let ?c = "\<lparr>hash = lit ''c3'', cdate = Day 2, ctitle = lit ''fix(ui) - layout'',
       cdescription = lit ''fix(ui) - layout'', technical_section = None,
       changelog_section = None\<rparr>"
  have a1: "list_ex (\<lambda>e. etype e = Breaking) (allChanges [?a, ?b])"
    by (simp add: string_eval changes_eval)
  have a2: "list_all (\<lambda>c. case changelog_section c of
                    None \<Rightarrow> True
                  | Some s \<Rightarrow> includes_str (toLowerCase s) (lit ''breaking'')
                               \<longrightarrow> includes_str s (lit ''breaking'')) [?a, ?b]"
    by (simp add: string_eval)
  have a: "determineVersionType [?a, ?b] = Major"
    using bump_type_detection [of "[?a, ?b]"] a1 a2 by blast
  have b1: "list_ex (\<lambda>e. etype e = Feature) (allChanges [?b, ?c])"
    by (simp add: string_eval changes_eval)
  have b2: "\<not> list_ex mentionsBreaking [?b, ?c]"
    by (simp add: string_eval mentionsBreaking_def)
  have b: "determineVersionType [?b, ?c] = Minor"
    using bump_type_detection [of "[?b, ?c]"] b1 b2 by blast
  have c1: "list_all noChangelog [?c]"
    by (simp add: noChangelog_def)
  have c2: "\<not> list_ex (\<lambda>c. includes_str (toLowerCase (ctitle c)) (lit ''breaking'')) [?c]"
    by (simp add: string_eval)
  have c3: "\<not> list_ex (\<lambda>e. etype e = Feature) (allChanges [?c])"
    by (simp add: string_eval changes_eval)
  have c: "determineVersionType [?c] = Patch"
    using bump_type_detection [of "[?c]"] c1 c2 c3 by presburger
  show ?thesis using a1 a b1 b c by blast
qed

section \<open>Grouping of the history\<close>

lemma chained_snoc:
  "chained (gs @ [g]) \<longleftrightarrow>
   chained gs \<and> (gs \<noteq> [] \<longrightarrow> startsNewGroup (gdate (last gs)) (commits (last gs)) (hd (commits g)))"
  by (induction gs rule: chained.induct) auto

lemma chained_nth:
  "chained gs \<Longrightarrow> Suc j < length gs \<Longrightarrow>
   startsNewGroup (gdate (gs ! j)) (commits (gs ! j)) (hd (commits (gs ! Suc j)))"
proof (induction gs arbitrary: j rule: chained.induct)
  case (3 g1 g2 gs)
  then show ?case by (cases j) auto
qed simp_all

lemma runOf_single: "runOf (cdate c) [c]"
  by (simp add: runOf_def)

lemma runOf_snoc:
  assumes "runOf d grp" "\<not> startsNewGroup d grp c"
  shows "runOf d (grp @ [c])"
  unfolding runOf_def
proof (intro conjI allI impI)
  show "grp @ [c] \<noteq> []" by simp
  show "d = cdate (hd (grp @ [c]))" using assms(1) by (simp add: runOf_def)
  fix i assume i: "0 < i \<and> i < length (grp @ [c])"
  show "\<not> startsNewGroup d (take i (grp @ [c])) ((grp @ [c]) ! i)"
  proof (cases "i < length grp")
    case True
    then show ?thesis using assms(1) i by (auto simp: runOf_def nth_append)
  next
    case False
    then have "i = length grp" using i by simp
    then show ?thesis using assms(2) by simp
  qed
qed

lemma runOf_length: "runOf d grp \<Longrightarrow> length grp \<le> 10"
proof (rule ccontr)
  assume r: "runOf d grp" and "\<not> length grp \<le> 10"
  then have "10 < length grp" by simp
  with r have "\<not> startsNewGroup d (take 10 grp) (grp ! 10)"
    by (auto simp: runOf_def)
  moreover have "length (take 10 grp) = 10" using \<open>10 < length grp\<close> by simp
  ultimately show False by (simp add: startsNewGroup_def)
qed

lemma pushGroup_good:
  assumes "loopInv groups grp d"
  shows "groupsGood (pushGroup groups grp d)"
proof (cases "grp = []")
  case True
  then show ?thesis using assms by (simp add: pushGroup_def loopInv_def groupsGood_def)
next
  case False
  then show ?thesis
    using assms
    by (auto simp: pushGroup_def loopInv_def groupsGood_def makeGroup_def chained_snoc)
qed

lemma groupLoop_good:
  "loopInv groups grp d \<Longrightarrow> groupsGood (groupLoop cs groups grp d)"
proof (induction cs arbitrary: groups grp d)
  case Nil
  then show ?case by (simp add: pushGroup_good)
next
  case (Cons c cs)
  show ?case
  proof (cases "startsNewGroup d grp c")
    case True
    have "loopInv (pushGroup groups grp d) [c] (cdate c)"
      unfolding loopInv_def
    proof (intro conjI impI)
      show "groupsGood (pushGroup groups grp d)" by (rule pushGroup_good [OF Cons.prems])
      show "runOf (cdate c) [c]" by (rule runOf_single)
      assume ne: "pushGroup groups grp d \<noteq> []"
      show "startsNewGroup (gdate (last (pushGroup groups grp d)))
              (commits (last (pushGroup groups grp d))) (hd [c])"
      proof (cases "grp = []")
        case True
        then show ?thesis using Cons.prems ne by (simp add: loopInv_def pushGroup_def)
      next
        case False
        then show ?thesis using \<open>startsNewGroup d grp c\<close>
          by (simp add: pushGroup_def makeGroup_def)
      qed
    qed simp_all
    from Cons.IH [OF this] show ?thesis using True by simp
  next
    case False
    then have "d \<noteq> NoDate" by (auto simp: startsNewGroup_def)
    then have ne: "grp \<noteq> []" using Cons.prems by (auto simp: loopInv_def)
    have "loopInv groups (grp @ [c]) d"
      using Cons.prems ne runOf_snoc [OF _ False]
      by (auto simp: loopInv_def)
    from Cons.IH [OF this] show ?thesis using False by simp
  qed
qed

lemma pushGroup_concat:
  "concat (map commits (pushGroup groups grp d)) = concat (map commits groups) @ grp"
  by (simp add: pushGroup_def makeGroup_def)

lemma groupLoop_concat:
  "concat (map commits (groupLoop cs groups grp d)) = concat (map commits groups) @ grp @ cs"
  by (induction cs arbitrary: groups grp d) (simp_all add: pushGroup_concat)

lemma groupLoop_run:
  assumes "d \<noteq> NoDate"
    and "\<forall>c \<in> set xs. \<not> (case daysDifference d (cdate c) of None \<Rightarrow> False | Some x \<Rightarrow> x > 7)"
    and "length grp + length xs \<le> 10"
  shows "groupLoop (xs @ rest) groups grp d = groupLoop rest groups (grp @ xs) d"
  using assms
proof (induction xs arbitrary: grp)
  case Nil
  then show ?case by simp
next
  case (Cons x xs)
  have "\<not> startsNewGroup d grp x"
    using Cons.prems by (auto simp: startsNewGroup_def)
  moreover have "groupLoop (xs @ rest) groups (grp @ [x]) d
        = groupLoop rest groups ((grp @ [x]) @ xs) d"
    using Cons.prems by (intro Cons.IH) auto
  ultimately show ?case by simp
qed

lemma twelve_then_one:
  assumes len: "length cs = 12"
    and dates: "map cdate cs = map Day ds"
    and sorted: "sorted ds"
    and span: "last ds \<le> hd ds + 3"
    and later: "cdate c13 = Day (last ds + 10)"
  shows "map (length \<circ> commits) (groupCommitsIntoVersions (cs @ [c13])) = [1, 2, 10]"
proof -
  have lds: "length ds = 12" using len dates by (metis length_map)
  have d: "cdate (cs ! i) = Day (ds ! i)" if "i < 12" for i
    using that len lds dates by (metis nth_map)
  have mono: "ds ! i \<le> ds ! j" if "i \<le> j" "j < 12" for i j
    using that sorted lds by (simp add: sorted_nth_mono)
  have hd0: "hd ds = ds ! 0" using lds by (cases ds) auto
  have "ds \<noteq> []" using lds by auto
  then have last11: "last ds = ds ! 11" using lds by (simp add: last_conv_nth)
  have range: "ds ! 0 \<le> ds ! i \<and> ds ! i \<le> ds ! 0 + 3" if "i < 12" for i
    using that mono [of 0 i] mono [of i 11] span hd0 last11 by simp
  obtain c1 r where cs: "cs = c1 # r" using len by (cases cs) auto
  have lr: "length r = 11" using len cs by simp
  define xs where "xs = take 9 r"
  have r: "r = xs @ [r ! 9, r ! 10]"
    unfolding xs_def using lr
    by (intro nth_equalityI) (auto simp: nth_append less_Suc_eq numeral_eq_Suc)
  have c1d: "cdate c1 = Day (ds ! 0)" using d [of 0] cs by simp
  have xsd: "\<forall>c \<in> set xs. \<not> (case daysDifference (cdate c1) (cdate c) of
                 None \<Rightarrow> False | Some x \<Rightarrow> x > 7)"
  proof
    fix c assume "c \<in> set xs"
    then obtain k where k: "k < 9" "c = r ! k"
      unfolding xs_def using lr by (auto simp: in_set_conv_nth)
    then have "c = cs ! Suc k" using cs by simp
    then have "cdate c = Day (ds ! Suc k)" using d [of "Suc k"] k(1) by simp
    moreover have "ds ! 0 \<le> ds ! Suc k \<and> ds ! Suc k \<le> ds ! 0 + 3"
      using range [of "Suc k"] k(1) by simp
    moreover have "\<bar>ds ! Suc k - ds ! 0\<bar> \<le> 7"
      using range [of "Suc k"] k(1) by linarith
    ultimately show "\<not> (case daysDifference (cdate c1) (cdate c) of
                 None \<Rightarrow> False | Some x \<Rightarrow> x > 7)"
      using c1d by simp
  qed
  have lxs: "length xs = 9" unfolding xs_def using lr by simp
  have c11: "cdate (r ! 9) = Day (ds ! 10)" using d [of 10] cs by simp
  have c12: "cdate (r ! 10) = Day (ds ! 11)" using d [of 11] cs by simp
  have g12: "\<bar>ds ! 11 - ds ! 10\<bar> \<le> 7"
    using range [of 10] range [of 11] by linarith
  have g13: "\<bar>ds ! 11 + 10 - ds ! 10\<bar> > 7"
    using mono [of 10 11] by linarith
  have step1: "groupLoop (cs @ [c13]) [] [] NoDate
      = groupLoop (xs @ [r ! 9, r ! 10, c13]) [] [c1] (cdate c1)"
    by (subst cs, subst r) (simp add: startsNewGroup_def pushGroup_def)
  have step2: "groupLoop (xs @ [r ! 9, r ! 10, c13]) [] [c1] (cdate c1)
      = groupLoop [r ! 9, r ! 10, c13] [] ([c1] @ xs) (cdate c1)"
    by (rule groupLoop_run) (use c1d xsd lxs in simp_all)
  have step3: "groupLoop [r ! 9, r ! 10, c13] [] ([c1] @ xs) (cdate c1)
      = [makeGroup (c1 # xs) (cdate c1), makeGroup [r ! 9, r ! 10] (cdate (r ! 9)),
         makeGroup [c13] (cdate c13)]"
    using lxs c1d c11 c12 later last11 g12 g13
    by (simp add: startsNewGroup_def pushGroup_def)
  show ?thesis
    unfolding groupCommitsIntoVersions_def step1 step2 step3
    using lxs by (simp add: makeGroup_def)
qed

lemma thirteen_commits_groups:
  "map (length \<circ> commits)
     (groupCommitsIntoVersions (map commitOnDay [0, 0, 0, 0, 1, 1, 1, 1, 2, 2, 2, 2, 12]))
   = [1, 2, 10]"
  by (simp add: groupCommitsIntoVersions_def startsNewGroup_def pushGroup_def makeGroup_def
      commitOnDay_def)

lemma thirteen_commits_groups_from_first:
  "map (length \<circ> commits)
     (groupCommitsIntoVersions (map commitOnDay [0, 0, 0, 0, 1, 1, 1, 1, 2, 2, 2, 2, 10]))
   = [1, 2, 10]"
  by (simp add: groupCommitsIntoVersions_def startsNewGroup_def pushGroup_def makeGroup_def
      commitOnDay_def)

text \<open>Every group holds a commit, so the bootstrap of the history never reads the hash
  of a missing commit: it always returns.\<close>

lemma groupVersions_total:
  "\<forall>g \<in> set gs. commits g \<noteq> [] \<Longrightarrow> \<exists>vs. groupVersions total' i gs = Inr vs"
proof (induction gs arbitrary: i)
  case Nil
  then show ?case by simp
next
  case (Cons g gs)
  then obtain vs where "groupVersions total' (Suc i) gs = Inr vs" by fastforce
  then show ?case using Cons.prems by (simp add: groupVersion_def Let_def)
qed

lemma groups_nonempty: "g \<in> set (groupCommitsIntoVersions cs) \<Longrightarrow> commits g \<noteq> []"
proof -
  have "loopInv [] [] NoDate" by (simp add: loopInv_def groupsGood_def)
  from groupLoop_good [OF this, of cs]
  show "g \<in> set (groupCommitsIntoVersions cs) \<Longrightarrow> commits g \<noteq> []"
    by (auto simp: groupsGood_def groupCommitsIntoVersions_def runOf_def)
qed

lemma initializeFromHistory_total: "\<exists>r. initializeFromHistory allCommits = Inr r"
proof (cases "allCommits = []")
  case True
  then show ?thesis by (simp add: initializeFromHistory_def)
next
  case False
  have "\<forall>g \<in> set (groupCommitsIntoVersions allCommits). commits g \<noteq> []"
    using groups_nonempty by blast
  from groupVersions_total [OF this]
  obtain vs where "groupVersions (length (groupCommitsIntoVersions allCommits)) 0
      (groupCommitsIntoVersions allCommits) = Inr vs" by blast
  then show ?thesis using False by (simp add: initializeFromHistory_def Let_def)
qed

text \<open>Twelve commits on three days and one commit ten days after the last of them
  make three groups; the most recent first, they hold 1, 2 and 10 commits. The same
  holds when the late commit comes ten days after the first commit.\<close>

theorem grouping_two_groups_counterexample:
  "length (groupCommitsIntoVersions
             (map commitOnDay [0, 0, 0, 0, 1, 1, 1, 1, 2, 2, 2, 2, 12])) = 3 \<and>
   length (groupCommitsIntoVersions
             (map commitOnDay [0, 0, 0, 0, 1, 1, 1, 1, 2, 2, 2, 2, 12])) \<noteq> 2 \<and>
   length (groupCommitsIntoVersions
             (map commitOnDay [0, 0, 0, 0, 1, 1, 1, 1, 2, 2, 2, 2, 10])) = 3"
proof -
  have "length (map (length \<circ> commits)
          (groupCommitsIntoVersions
             (map commitOnDay [0, 0, 0, 0, 1, 1, 1, 1, 2, 2, 2, 2, 12]))) = 3"
    unfolding thirteen_commits_groups by simp
  moreover have "length (map (length \<circ> commits)
          (groupCommitsIntoVersions
             (map commitOnDay [0, 0, 0, 0, 1, 1, 1, 1, 2, 2, 2, 2, 10]))) = 3"
    unfolding thirteen_commits_groups_from_first by simp
  ultimately show ?thesis by simp
qed

text \<open>
  Claim C9, as the code has it. The groups, read oldest first, are the commits in their
  order. Inside a group no commit after the first met the condition for a new group
  (no anchor date yet, a gap of more than 7 days to the anchor date, or 10 commits
  already in the running group), the anchor date is the date of the first commit and a
  group has at most 10 commits; the first commit of every later group met the condition
  after the whole group before it. Consequently 12 commits spanning 3 days followed by
  one commit 10 days after the last of them make exactly 3 groups, of 10, 2 and 1
  commits.
\<close>

theorem grouping_rule:
  "concat (map commits (rev (groupCommitsIntoVersions cs))) = cs \<and>
   (\<forall>g \<in> set (groupCommitsIntoVersions cs).
      commits g \<noteq> [] \<and> gdate g = cdate (hd (commits g)) \<and> length (commits g) \<le> 10 \<and>
      (\<forall>i. 0 < i \<and> i < length (commits g) \<longrightarrow>
         \<not> startsNewGroup (gdate g) (take i (commits g)) (commits g ! i))) \<and>
   (\<forall>j. Suc j < length (groupCommitsIntoVersions cs) \<longrightarrow>
      startsNewGroup (gdate (rev (groupCommitsIntoVersions cs) ! j))
        (commits (rev (groupCommitsIntoVersions cs) ! j))
        (hd (commits (rev (groupCommitsIntoVersions cs) ! Suc j)))) \<and>
   (length cs = 12 \<and> map cdate cs = map Day ds \<and> sorted ds \<and> last ds \<le> hd ds + 3 \<and>
    cdate c13 = Day (last ds + 10) \<longrightarrow>
      length (groupCommitsIntoVersions (cs @ [c13])) = 3 \<and>
      map (length \<circ> commits) (groupCommitsIntoVersions (cs @ [c13])) = [1, 2, 10])"
proof -
  let ?gs = "groupLoop cs [] [] NoDate"
  have inv: "loopInv [] [] NoDate" by (simp add: loopInv_def groupsGood_def)
  have good: "groupsGood ?gs" by (rule groupLoop_good [OF inv])
  have r: "rev (groupCommitsIntoVersions cs) = ?gs" "set (groupCommitsIntoVersions cs) = set ?gs"
    "length (groupCommitsIntoVersions cs) = length ?gs"
    by (simp_all add: groupCommitsIntoVersions_def)
  have 1: "concat (map commits ?gs) = cs"
    by (simp add: groupLoop_concat)
  have 2: "\<forall>g \<in> set ?gs.
      commits g \<noteq> [] \<and> gdate g = cdate (hd (commits g)) \<and> length (commits g) \<le> 10 \<and>
      (\<forall>i. 0 < i \<and> i < length (commits g) \<longrightarrow>
         \<not> startsNewGroup (gdate g) (take i (commits g)) (commits g ! i))"
  proof
    fix g assume "g \<in> set ?gs"
    then have ro: "runOf (gdate g) (commits g)" using good by (simp add: groupsGood_def)
    from runOf_length [OF ro] ro
    show "commits g \<noteq> [] \<and> gdate g = cdate (hd (commits g)) \<and> length (commits g) \<le> 10 \<and>
      (\<forall>i. 0 < i \<and> i < length (commits g) \<longrightarrow>
         \<not> startsNewGroup (gdate g) (take i (commits g)) (commits g ! i))"
      unfolding runOf_def by blast
  qed
  have 3: "\<forall>j. Suc j < length ?gs \<longrightarrow>
      startsNewGroup (gdate (?gs ! j)) (commits (?gs ! j)) (hd (commits (?gs ! Suc j)))"
    using good chained_nth by (auto simp: groupsGood_def)
  have 4: "length cs = 12 \<and> map cdate cs = map Day ds \<and> sorted ds \<and> last ds \<le> hd ds + 3 \<and>
    cdate c13 = Day (last ds + 10) \<longrightarrow>
      length (groupCommitsIntoVersions (cs @ [c13])) = 3 \<and>
      map (length \<circ> commits) (groupCommitsIntoVersions (cs @ [c13])) = [1, 2, 10]"
  proof
    assume a: "length cs = 12 \<and> map cdate cs = map Day ds \<and> sorted ds \<and>
      last ds \<le> hd ds + 3 \<and> cdate c13 = Day (last ds + 10)"
    then have m: "map (length \<circ> commits) (groupCommitsIntoVersions (cs @ [c13])) = [1, 2, 10]"
      by (intro twelve_then_one) simp_all
    from arg_cong [OF m, of length]
    have "length (groupCommitsIntoVersions (cs @ [c13])) = 3"
      by simp
    then show "length (groupCommitsIntoVersions (cs @ [c13])) = 3 \<and>
      map (length \<circ> commits) (groupCommitsIntoVersions (cs @ [c13])) = [1, 2, 10]"
      using m by simp
  qed
  show ?thesis
    unfolding r using 1 2 3 4 by blast
qed

theorem grouping_rule_witness:
  "length (map commitOnDay [0, 0, 0, 0, 1, 1, 1, 1, 2, 2, 2, 2]) = 12 \<and>
   map cdate (map commitOnDay [0, 0, 0, 0, 1, 1, 1, 1, 2, 2, 2, 2])
     = map Day [0, 0, 0, 0, 1, 1, 1, 1, 2, 2, 2, 2] \<and>
   sorted [0, 0, 0, 0, 1, 1, 1, 1, 2, 2, 2, 2 :: int] \<and>
   last [0, 0, 0, 0, 1, 1, 1, 1, 2, 2, 2, 2 :: int]
     \<le> hd [0, 0, 0, 0, 1, 1, 1, 1, 2, 2, 2, 2] + 3 \<and>
   cdate (commitOnDay 12) = Day (last [0, 0, 0, 0, 1, 1, 1, 1, 2, 2, 2, 2] + 10) \<and>
   length (groupCommitsIntoVersions
     (map commitOnDay [0, 0, 0, 0, 1, 1, 1, 1, 2, 2, 2, 2] @ [commitOnDay 12])) = 3"
proof -
  have h: "length (map commitOnDay [0, 0, 0, 0, 1, 1, 1, 1, 2, 2, 2, 2]) = 12"
    "map cdate (map commitOnDay [0, 0, 0, 0, 1, 1, 1, 1, 2, 2, 2, 2])
       = map Day [0, 0, 0, 0, 1, 1, 1, 1, 2, 2, 2, 2]"
    "sorted [0, 0, 0, 0, 1, 1, 1, 1, 2, 2, 2, 2 :: int]"
    "last [0, 0, 0, 0, 1, 1, 1, 1, 2, 2, 2, 2 :: int]
       \<le> hd [0, 0, 0, 0, 1, 1, 1, 1, 2, 2, 2, 2] + 3"
    "cdate (commitOnDay 12) = Day (last [0, 0, 0, 0, 1, 1, 1, 1, 2, 2, 2, 2] + 10)"
    by (simp_all add: commitOnDay_def)
  from grouping_rule [of "map commitOnDay [0, 0, 0, 0, 1, 1, 1, 1, 2, 2, 2, 2]"
      "[0, 0, 0, 0, 1, 1, 1, 1, 2, 2, 2, 2]" "commitOnDay 12"] h
  have "length (groupCommitsIntoVersions
     (map commitOnDay [0, 0, 0, 0, 1, 1, 1, 1, 2, 2, 2, 2] @ [commitOnDay 12])) = 3"
    by blast
  then show ?thesis using h by blast
qed

end
